theory Spec2Isabelle
  imports Complex_Main "HOL-Library.Multiset" "HOL-Library.Log_Nat"
begin

section \<open>Calendar dates\<close>

text \<open>
  The views and serializers work on Python \<^verbatim>\<open>datetime.date\<close> values: they compare
  dates, call \<^verbatim>\<open>weekday()\<close>, \<^verbatim>\<open>replace(day=1)\<close> and subtract a
  \<^verbatim>\<open>timedelta(days=k)\<close>. A date is a year, a month and a day of the proleptic
  Gregorian calendar; the helper functions below follow Python's \<^verbatim>\<open>datetime\<close>
  module (\<^verbatim>\<open>_is_leap\<close>, \<^verbatim>\<open>_days_in_month\<close>, \<^verbatim>\<open>_days_before_year\<close>,
  \<^verbatim>\<open>_days_before_month\<close>, \<^verbatim>\<open>_ymd2ord\<close>).
\<close>

record date =
  year :: int
  month :: int
  day :: int

definition is_leap :: "int \<Rightarrow> bool" where
  "is_leap y \<longleftrightarrow> y mod 4 = 0 \<and> (y mod 100 \<noteq> 0 \<or> y mod 400 = 0)"

definition DAYS_IN_MONTH :: "int list" where
  "DAYS_IN_MONTH = [-1, 31, 28, 31, 30, 31, 30, 31, 31, 30, 31, 30, 31]"

definition DAYS_BEFORE_MONTH :: "int list" where
  "DAYS_BEFORE_MONTH = [-1, 0, 31, 59, 90, 120, 151, 181, 212, 243, 273, 304, 334]"

definition days_in_month :: "int \<Rightarrow> int \<Rightarrow> int" where
  "days_in_month y m = (if m = 2 \<and> is_leap y then 29 else DAYS_IN_MONTH ! nat m)"

definition days_before_year :: "int \<Rightarrow> int" where
  "days_before_year y0 =
     (let y = y0 - 1 in y * 365 + y div 4 - y div 100 + y div 400)"

definition days_before_month :: "int \<Rightarrow> int \<Rightarrow> int" where
  "days_before_month y m =
     DAYS_BEFORE_MONTH ! nat m + (if m > 2 \<and> is_leap y then 1 else 0)"

text \<open>A \<^verbatim>\<open>date\<close> object only exists for a valid calendar day of the years 1 to 9999.\<close>

definition valid_date :: "date \<Rightarrow> bool" where
  "valid_date d \<longleftrightarrow>
     1 \<le> year d \<and> year d \<le> 9999 \<and> 1 \<le> month d \<and> month d \<le> 12 \<and>
     1 \<le> day d \<and> day d \<le> days_in_month (year d) (month d)"

definition toordinal :: "date \<Rightarrow> int" where
  "toordinal d = days_before_year (year d) + days_before_month (year d) (month d) + day d"

text \<open>\<^verbatim>\<open>date.weekday()\<close>: Monday is 0, Sunday is 6.\<close>

definition weekday :: "date \<Rightarrow> int" where
  "weekday d = (toordinal d + 6) mod 7"

text \<open>Dates compare as the tuples (year, month, day).\<close>

definition date_lt :: "date \<Rightarrow> date \<Rightarrow> bool" where
  "date_lt a b \<longleftrightarrow>
     year a < year b \<or>
     (year a = year b \<and> (month a < month b \<or> (month a = month b \<and> day a < day b)))"

definition date_eq :: "date \<Rightarrow> date \<Rightarrow> bool" where
  "date_eq a b \<longleftrightarrow> year a = year b \<and> month a = month b \<and> day a = day b"

definition date_le :: "date \<Rightarrow> date \<Rightarrow> bool" where
  "date_le a b \<longleftrightarrow> date_lt a b \<or> date_eq a b"

text \<open>
  \<^verbatim>\<open>d - timedelta(days=k)\<close> for \<open>k \<ge> 0\<close> is the day \<open>k\<close> days before \<open>d\<close>. Python
  raises \<^verbatim>\<open>OverflowError\<close> when the result would lie before 0001-01-01; that is the
  value \<open>None\<close> here. The day before is computed on the calendar; lemma
  \<open>toordinal_sub_days\<close> below shows that this is Python's
  \<^verbatim>\<open>fromordinal(d.toordinal() - k)\<close>.
\<close>

definition prev_day :: "date \<Rightarrow> date option" where
  "prev_day d =
     (if day d > 1 then Some (d\<lparr>day := day d - 1\<rparr>)
      else if month d > 1 then
        Some \<lparr>year = year d, month = month d - 1, day = days_in_month (year d) (month d - 1)\<rparr>
      else if year d > 1 then Some \<lparr>year = year d - 1, month = 12, day = 31\<rparr>
      else None)"

fun sub_days :: "date \<Rightarrow> nat \<Rightarrow> date option" where
  "sub_days d 0 = Some d"
| "sub_days d (Suc k) = (case prev_day d of None \<Rightarrow> None | Some p \<Rightarrow> sub_days p k)"

text \<open>\<^verbatim>\<open>d.replace(day=1)\<close>; day 1 exists in every month, so no \<^verbatim>\<open>ValueError\<close>.\<close>

definition replace_day1 :: "date \<Rightarrow> date" where
  "replace_day1 d = d\<lparr>day := 1\<rparr>"

section \<open>Data model (models.py)\<close>

text \<open>
  Rows of the three tables. A \<^verbatim>\<open>DecimalField\<close> holds an exact decimal number and is a
  rational here; a foreign key is the primary key of the row it points to; a
  \<^verbatim>\<open>DateTimeField\<close> is a point on an integer time line. A nullable column is an option.
\<close>

record MetricType =
  mt_id :: nat
  mt_name :: string
  mt_unit :: string
  mt_description :: string
  min_value :: "rat option"
  max_value :: "rat option"
  mt_is_active :: bool

record HealthMetric =
  hm_id :: nat
  hm_user :: nat
  hm_metric_type :: nat
  hm_value :: rat
  recorded_date :: date
  hm_notes :: string
  hm_created_at :: int
  hm_updated_at :: int

datatype GoalType = DAILY | WEEKLY | MONTHLY

datatype GoalDirection = INCREASE | DECREASE | MAINTAIN

record Goal =
  goal_id :: nat
  goal_user :: nat
  goal_metric_type :: nat
  target_value :: rat
  goal_type :: GoalType
  direction :: GoalDirection
  is_active :: bool
  start_date :: date
  end_date :: "date option"
  goal_created_at :: int
  goal_updated_at :: int

datatype error =
  OverflowError
  | ValidationError string
  | IntegrityError
  | Http404

text \<open>\<^verbatim>\<open>Goal.is_expired\<close>, with the current date as an argument.\<close>

definition is_expired :: "date \<Rightarrow> Goal \<Rightarrow> bool" where
  "is_expired today g = (case end_date g of Some e \<Rightarrow> date_lt e today | None \<Rightarrow> False)"

text \<open>
  The truth value Python gives an optional \<^verbatim>\<open>Decimal\<close>: \<^verbatim>\<open>None\<close> and zero are false.
\<close>

definition truthy :: "rat option \<Rightarrow> bool" where
  "truthy v = (case v of None \<Rightarrow> False | Some x \<Rightarrow> x \<noteq> 0)"

text \<open>
  \<^verbatim>\<open>HealthMetric.clean\<close>: \<open>None\<close> when the value passes, the error otherwise. The
  payload of a \<^verbatim>\<open>ValidationError\<close> is the field it is reported under (the model's
  \<^verbatim>\<open>clean\<close> reports under no field); the message text is left out.
\<close>

definition clean :: "MetricType option \<Rightarrow> rat \<Rightarrow> error option" where
  "clean metric_type v =
     (case metric_type of
        None \<Rightarrow> None
      | Some mt \<Rightarrow>
          if truthy (min_value mt) \<and> v < the (min_value mt) then Some (ValidationError [])
          else if truthy (max_value mt) \<and> v > the (max_value mt) then Some (ValidationError [])
          else None)"

section \<open>Creating a metric (serializers.py, HealthMetricCreateSerializer)\<close>

text \<open>The attributes handed to \<^verbatim>\<open>validate\<close>; \<^verbatim>\<open>attrs.get\<close> of an absent key is \<open>None\<close>.\<close>

record MetricAttrs =
  a_metric_type :: "MetricType option"
  a_value :: "rat option"
  a_recorded_date :: "date option"
  a_notes :: "string option"

definition check_bounds :: "MetricType option \<Rightarrow> rat option \<Rightarrow> error option" where
  "check_bounds metric_type v =
     (case (metric_type, v) of
        (Some mt, Some x) \<Rightarrow>
          if truthy (min_value mt) \<and> x < the (min_value mt) then Some (ValidationError ''value'')
          else if truthy (max_value mt) \<and> x > the (max_value mt)
          then Some (ValidationError ''value'')
          else None
      | _ \<Rightarrow> None)"

text \<open>
  \<^verbatim>\<open>HealthMetric.objects.filter(user=user, metric_type=metric_type,
  recorded_date=recorded_date).exists()\<close>. No row has a null metric type, so the filter
  on an absent metric type finds nothing.
\<close>

definition existing :: "nat \<Rightarrow> MetricType option \<Rightarrow> date \<Rightarrow> HealthMetric list \<Rightarrow> bool" where
  "existing user metric_type d db =
     (case metric_type of
        None \<Rightarrow> False
      | Some mt \<Rightarrow>
          filter (\<lambda>m. hm_user m = user \<and> hm_metric_type m = mt_id mt \<and>
                       date_eq (recorded_date m) d) db \<noteq> [])"

text \<open>
  \<^verbatim>\<open>HealthMetricCreateSerializer.validate\<close>. The request's user, the current date, the
  serializer's instance (\<open>None\<close> on create) and the table are arguments.
\<close>

definition validate ::
  "nat \<Rightarrow> date \<Rightarrow> HealthMetric option \<Rightarrow> HealthMetric list \<Rightarrow> MetricAttrs
     \<Rightarrow> error + MetricAttrs" where
  "validate user today instance db attrs =
     (let metric_type = a_metric_type attrs;
          v = a_value attrs;
          d = (case a_recorded_date attrs of Some x \<Rightarrow> x | None \<Rightarrow> today)
      in case check_bounds metric_type v of
           Some e \<Rightarrow> Inl e
         | None \<Rightarrow>
             if instance = None \<and> existing user metric_type d db
             then Inl (ValidationError ''recorded_date'')
             else Inr attrs)"

text \<open>
  Creating a row: the field checks of the serializer (metric type and value are required,
  the value field carries \<^verbatim>\<open>MinValueValidator(0)\<close>), then \<^verbatim>\<open>validate\<close>, then the
  insert of \<^verbatim>\<open>create\<close> with the user of the request, under the table's
  \<^verbatim>\<open>unique_daily_metric\<close> constraint. The new row gets the next free primary key.
\<close>

definition next_id :: "HealthMetric list \<Rightarrow> nat" where
  "next_id db = Suc (foldr max (map hm_id db) 0)"

definition create_metric ::
  "nat \<Rightarrow> date \<Rightarrow> int \<Rightarrow> HealthMetric list \<Rightarrow> MetricAttrs \<Rightarrow> error + HealthMetric list" where
  "create_metric user today now db attrs =
     (case a_metric_type attrs of
        None \<Rightarrow> Inl (ValidationError ''metric_type'')
      | Some mt \<Rightarrow>
          (case a_value attrs of
             None \<Rightarrow> Inl (ValidationError ''value'')
           | Some v \<Rightarrow>
               if v < 0 then Inl (ValidationError ''value'')
               else
                 (case validate user today None db attrs of
                    Inl e \<Rightarrow> Inl e
                  | Inr validated_data \<Rightarrow>
                      let d = (case a_recorded_date validated_data of
                                 Some x \<Rightarrow> x | None \<Rightarrow> today);
                          row = \<lparr>hm_id = next_id db, hm_user = user,
                                 hm_metric_type = mt_id mt, hm_value = v, recorded_date = d,
                                 hm_notes = (case a_notes validated_data of
                                            Some n \<Rightarrow> n | None \<Rightarrow> []),
                                 hm_created_at = now, hm_updated_at = now\<rparr>
                      in if existing user (Some mt) d db then Inl IntegrityError
                         else Inr (db @ [row]))))"

section \<open>Goal progress (serializers.py, GoalSerializer.get\_progress)\<close>

text \<open>
  The aggregates of a queryset: \<^verbatim>\<open>Sum\<close> and \<^verbatim>\<open>Avg\<close> are \<^verbatim>\<open>None\<close> over no rows.
  \<^verbatim>\<open>x or 0\<close> replaces \<^verbatim>\<open>None\<close>, and a zero, by 0.
\<close>

definition aggregate_Sum :: "HealthMetric list \<Rightarrow> rat option" where
  "aggregate_Sum ms = (if ms = [] then None else Some (sum_list (map hm_value ms)))"

definition aggregate_Avg :: "HealthMetric list \<Rightarrow> rat option" where
  "aggregate_Avg ms =
     (if ms = [] then None else Some (sum_list (map hm_value ms) / of_nat (length ms)))"

definition or_0 :: "rat option \<Rightarrow> rat" where
  "or_0 v = (if truthy v then the v else 0)"

text \<open>
  The percentage is computed on Python floats, IEEE 754 binary64 numbers. A float is the
  rational number it denotes, and every operation of the source (\<^verbatim>\<open>float(d)\<close> of a
  decimal, the division, the multiplication) returns its exact result rounded to the
  nearest number with a 53 bit significand, a tie going to the even significand:
  \<open>float64\<close>. The exponent range is not limited here; the values of this program (decimals
  of at most ten digits, their quotients and percentages) are far from overflow and
  underflow.

  \<^verbatim>\<open>round(x, 1)\<close> of a float rounds the exact value of \<open>x\<close> to one decimal place, a tie
  going to the even digit (\<open>round1\<close>), and returns the float nearest to that decimal
  number. The integers 0 and 100, which the source also passes to \<^verbatim>\<open>round\<close>, are
  returned as they are (lemmas \<open>float_round1_0\<close> and \<open>float_round1_100\<close>).
\<close>

definition round_half_even :: "rat \<Rightarrow> int" where
  "round_half_even y =
     (let f = \<lfloor>y\<rfloor>; r = y - of_int f
      in if r < 1 / 2 then f else if r > 1 / 2 then f + 1 else if even f then f else f + 1)"

definition round1 :: "rat \<Rightarrow> rat" where
  "round1 x = of_int (round_half_even (x * 10)) / 10"

definition pow2 :: "int \<Rightarrow> rat" where
  "pow2 e = 2 powi e"

text \<open>The binary exponent of a positive number \<open>y\<close>: \<open>2 ^ e \<le> y < 2 ^ (e + 1)\<close>.\<close>

definition exponent :: "rat \<Rightarrow> int" where
  "exponent y =
     (let e0 = bitlen (fst (quotient_of y)) - bitlen (snd (quotient_of y))
      in if pow2 e0 \<le> y then e0 else e0 - 1)"

definition float64 :: "rat \<Rightarrow> rat" where
  "float64 x =
     (if x = 0 then 0
      else let u = pow2 (exponent \<bar>x\<bar> - 52)
           in sgn x * of_int (round_half_even (\<bar>x\<bar> / u)) * u)"

definition float_round1 :: "rat \<Rightarrow> rat" where
  "float_round1 x = float64 (round1 x)"

text \<open>
  The progress snapshot. The two period fields are the dates that the source renders
  with \<^verbatim>\<open>isoformat()\<close>; \<open>current_value\<close> and \<open>p_target_value\<close> are the exact decimals
  of which the source returns the nearest floats.
\<close>

record Progress =
  current_value :: rat
  p_target_value :: rat
  percentage :: rat
  period_start :: date
  period_end :: date

definition date_range :: "date \<Rightarrow> GoalType \<Rightarrow> error + date \<times> date" where
  "date_range today gt =
     (if gt = DAILY then Inr (today, today)
      else if gt = WEEKLY then
        (case sub_days today (nat (weekday today)) of
           None \<Rightarrow> Inl OverflowError
         | Some start \<Rightarrow> Inr (start, today))
      else Inr (replace_day1 today, today))"

definition metrics_in_range ::
  "HealthMetric list \<Rightarrow> Goal \<Rightarrow> date \<Rightarrow> date \<Rightarrow> HealthMetric list" where
  "metrics_in_range db obj start end' =
     filter (\<lambda>m. hm_user m = goal_user obj \<and> hm_metric_type m = goal_metric_type obj \<and>
                  date_le start (recorded_date m) \<and> date_le (recorded_date m) end') db"

definition get_progress :: "date \<Rightarrow> HealthMetric list \<Rightarrow> Goal \<Rightarrow> error + Progress" where
  "get_progress today db obj =
     (case date_range today (goal_type obj) of
        Inl e \<Rightarrow> Inl e
      | Inr (start, end') \<Rightarrow>
          let metrics = metrics_in_range db obj start end';
              cv = (if goal_type obj = DAILY then or_0 (aggregate_Sum metrics)
                    else or_0 (aggregate_Avg metrics));
              pct = (if target_value obj > 0
                     then min 100 (float64 (float64 (float64 cv / float64 (target_value obj))
                                     * 100))
                     else 0)
          in Inr \<lparr>current_value = cv, p_target_value = target_value obj,
                  percentage = float_round1 pct, period_start = start, period_end = end'\<rparr>)"

section \<open>Views (views.py)\<close>

text \<open>
  \<^verbatim>\<open>order_by\<close>: the rows sorted by a comparison, here by insertion. The orderings are
  \<^verbatim>\<open>('-recorded_date', '-created_at')\<close> for metrics and the goals' default
  \<^verbatim>\<open>('-created_at')\<close>.
\<close>

fun insort_by :: "('a \<Rightarrow> 'a \<Rightarrow> bool) \<Rightarrow> 'a \<Rightarrow> 'a list \<Rightarrow> 'a list" where
  "insort_by le x [] = [x]"
| "insort_by le x (y # ys) = (if le x y then x # y # ys else y # insort_by le x ys)"

definition order_by :: "('a \<Rightarrow> 'a \<Rightarrow> bool) \<Rightarrow> 'a list \<Rightarrow> 'a list" where
  "order_by le xs = foldr (insort_by le) xs []"

definition metric_order :: "HealthMetric \<Rightarrow> HealthMetric \<Rightarrow> bool" where
  "metric_order a b \<longleftrightarrow>
     date_lt (recorded_date b) (recorded_date a) \<or>
     (date_eq (recorded_date a) (recorded_date b) \<and> hm_created_at b \<le> hm_created_at a)"

definition goal_order :: "Goal \<Rightarrow> Goal \<Rightarrow> bool" where
  "goal_order a b \<longleftrightarrow> goal_created_at b \<le> goal_created_at a"

text \<open>
  \<^verbatim>\<open>GoalViewSet.deactivate\<close>: the goal is looked up among the user's goals by its
  primary key (404 when there is none), its flag is cleared and the row is saved;
  \<^verbatim>\<open>save\<close> also stamps \<^verbatim>\<open>updated_at\<close>.
\<close>

definition get_object :: "nat \<Rightarrow> nat \<Rightarrow> Goal list \<Rightarrow> error + Goal" where
  "get_object user pk goals =
     (case filter (\<lambda>g. goal_user g = user \<and> goal_id g = pk) goals of
        [] \<Rightarrow> Inl Http404
      | g # _ \<Rightarrow> Inr g)"

definition save :: "int \<Rightarrow> Goal \<Rightarrow> Goal list \<Rightarrow> Goal list" where
  "save now goal goals =
     map (\<lambda>g. if goal_id g = goal_id goal then goal\<lparr>goal_updated_at := now\<rparr> else g) goals"

definition deactivate :: "nat \<Rightarrow> nat \<Rightarrow> int \<Rightarrow> Goal list \<Rightarrow> error + Goal list" where
  "deactivate user pk now goals =
     (case get_object user pk goals of
        Inl e \<Rightarrow> Inl e
      | Inr goal \<Rightarrow> Inr (save now (goal\<lparr>is_active := False\<rparr>) goals))"

text \<open>\<^verbatim>\<open>DashboardViewSet.list\<close>.\<close>

record Dashboard =
  total_metrics_logged :: nat
  active_goals :: nat
  metrics_this_week :: nat
  goals_on_track :: nat
  recent_metrics :: "HealthMetric list"
  goal_progress :: "(Goal \<times> Progress) list"

fun serializer_data ::
  "date \<Rightarrow> HealthMetric list \<Rightarrow> Goal list \<Rightarrow> error + (Goal \<times> Progress) list" where
  "serializer_data today db [] = Inr []"
| "serializer_data today db (g # gs) =
     (case get_progress today db g of
        Inl e \<Rightarrow> Inl e
      | Inr p \<Rightarrow>
          (case serializer_data today db gs of
             Inl e \<Rightarrow> Inl e
           | Inr ps \<Rightarrow> Inr ((g, p) # ps)))"

definition active_goals_queryset :: "nat \<Rightarrow> date \<Rightarrow> Goal list \<Rightarrow> Goal list" where
  "active_goals_queryset user today goals =
     order_by goal_order
       (filter (\<lambda>g. \<not> (case end_date g of Some e \<Rightarrow> date_lt e today | None \<Rightarrow> False))
          (filter (\<lambda>g. goal_user g = user \<and> is_active g) goals))"

definition dashboard_list ::
  "nat \<Rightarrow> date \<Rightarrow> HealthMetric list \<Rightarrow> Goal list \<Rightarrow> error + Dashboard" where
  "dashboard_list user today db goals =
     (case sub_days today 7 of
        None \<Rightarrow> Inl OverflowError
      | Some week_ago \<Rightarrow>
          let total_metrics = length (filter (\<lambda>m. hm_user m = user) db);
              this_week = length (filter (\<lambda>m. hm_user m = user \<and>
                                               date_le week_ago (recorded_date m)) db);
              active = active_goals_queryset user today goals;
              recent = take 5 (order_by metric_order (filter (\<lambda>m. hm_user m = user) db))
          in (case serializer_data today db active of
                Inl e \<Rightarrow> Inl e
              | Inr goal_data \<Rightarrow>
                  Inr \<lparr>total_metrics_logged = total_metrics,
                       active_goals = length active,
                       metrics_this_week = this_week,
                       goals_on_track =
                         length (filter (\<lambda>gd. percentage (snd gd) \<ge> 50) goal_data),
                       recent_metrics = recent,
                       goal_progress = goal_data\<rparr>))"

section \<open>Sample data\<close>

text \<open>
  A small database used to run the definitions: user 1 tracks steps (metric type 1) and
  sleep (metric type 2); today is Wednesday, 15 May 2024.
\<close>

definition ex_today :: date where
  "ex_today = \<lparr>year = 2024, month = 5, day = 15\<rparr>"

definition ex_steps :: MetricType where
  "ex_steps = \<lparr>mt_id = 1, mt_name = ''steps'', mt_unit = ''steps'', mt_description = [],
      min_value = Some 0, max_value = Some 100000, mt_is_active = True\<rparr>"

definition ex_metric :: "nat \<Rightarrow> nat \<Rightarrow> nat \<Rightarrow> rat \<Rightarrow> int \<Rightarrow> int \<Rightarrow> int \<Rightarrow> HealthMetric" where
  "ex_metric i u t v y m d =
     \<lparr>hm_id = i, hm_user = u, hm_metric_type = t, hm_value = v,
      recorded_date = \<lparr>year = y, month = m, day = d\<rparr>, hm_notes = [],
      hm_created_at = int i, hm_updated_at = int i\<rparr>"

definition ex_db :: "HealthMetric list" where
  "ex_db =
     [ex_metric 1 1 1 8000 2024 5 15,
      ex_metric 2 1 2 3 2024 5 13,
      ex_metric 3 1 2 5 2024 5 14,
      ex_metric 4 2 1 10000 2024 5 15,
      ex_metric 5 1 1 6000 2024 5 8,
      ex_metric 6 1 1 4000 2024 5 7,
      ex_metric 7 1 1 9000 2024 5 20,
      ex_metric 8 1 2 7 2024 4 30]"

definition ex_goal :: "nat \<Rightarrow> nat \<Rightarrow> rat \<Rightarrow> GoalType \<Rightarrow> Goal" where
  "ex_goal i t tv gt =
     \<lparr>goal_id = i, goal_user = 1, goal_metric_type = t, target_value = tv, goal_type = gt,
      direction = INCREASE, is_active = True,
      start_date = \<lparr>year = 2024, month = 1, day = 1\<rparr>, end_date = None,
      goal_created_at = int i, goal_updated_at = int i\<rparr>"

definition ex_goals :: "Goal list" where
  "ex_goals =
     [ex_goal 1 1 10000 DAILY,
      ex_goal 2 2 8 WEEKLY,
      (ex_goal 3 2 7 MONTHLY)\<lparr>is_active := False\<rparr>,
      (ex_goal 4 1 20000 WEEKLY)\<lparr>end_date := Some \<lparr>year = 2024, month = 5, day = 14\<rparr>\<rparr>,
      (ex_goal 5 1 100 MONTHLY)\<lparr>goal_user := 2\<rparr>,
      (ex_goal 6 1 100000 MONTHLY)\<lparr>end_date := Some \<lparr>year = 2024, month = 5, day = 15\<rparr>\<rparr>]"

definition ex_attrs :: "MetricType \<Rightarrow> rat \<Rightarrow> int \<Rightarrow> MetricAttrs" where
  "ex_attrs mt v d =
     \<lparr>a_metric_type = Some mt, a_value = Some v,
      a_recorded_date = Some \<lparr>year = 2024, month = 5, day = d\<rparr>, a_notes = None\<rparr>"

definition ex_capped :: MetricType where
  "ex_capped = ex_steps\<lparr>max_value := Some 0\<rparr>"

section \<open>The dashboard's weekly count as the specification words it\<close>

text \<open>
  The specification counts the user's observations whose \<open>recorded_date\<close> lies ``within
  the last 7 days inclusive of today''. \<open>spec_observations_within k\<close> counts the user's
  rows dated from \<open>k\<close> days before today up to today; the wording is met by \<open>k = 6\<close>
  (seven calendar days) and, read generously, by \<open>k = 7\<close>.
\<close>

definition spec_observations_within :: "nat \<Rightarrow> nat \<Rightarrow> date \<Rightarrow> HealthMetric list \<Rightarrow> nat" where
  "spec_observations_within k user today db =
     (case sub_days today k of
        None \<Rightarrow> length (filter (\<lambda>m. hm_user m = user \<and> date_le (recorded_date m) today) db)
      | Some first \<Rightarrow>
          length (filter (\<lambda>m. hm_user m = user \<and> date_le first (recorded_date m) \<and>
                              date_le (recorded_date m) today) db))"

section \<open>The percentage as the specification words it\<close>

text \<open>
  The specification gives the percentage as \<open>min(100, current_value / target_value * 100)\<close>
  rounded to one decimal place for a positive target, and 0 for the target 0.
  \<open>spec_percentage rnd\<close> is that number in exact arithmetic, for a rounding \<open>rnd\<close> to one
  decimal place: half to even (\<open>round1\<close>), half up (\<open>round1_half_up\<close>) or half down
  (\<open>round1_half_down\<close>).
\<close>

definition round1_half_up :: "rat \<Rightarrow> rat" where
  "round1_half_up x = of_int \<lfloor>x * 10 + 1 / 2\<rfloor> / 10"

definition round1_half_down :: "rat \<Rightarrow> rat" where
  "round1_half_down x = of_int \<lceil>x * 10 - 1 / 2\<rceil> / 10"

definition spec_percentage :: "(rat \<Rightarrow> rat) \<Rightarrow> rat \<Rightarrow> rat \<Rightarrow> rat" where
  "spec_percentage rnd cv tv = (if tv > 0 then rnd (min 100 (cv / tv * 100)) else 0)"

text \<open>A table with one observation of user 1 for metric type 1, dated 15 May 2024.\<close>

definition ex_db_tie :: "rat \<Rightarrow> HealthMetric list" where
  "ex_db_tie v = [ex_metric 1 1 1 v 2024 5 15]"

section \<open>Calendar lemmas\<close>

lemma month_cases:
  assumes "1 \<le> (m::int)" "m \<le> 12"
  shows "m = 1 \<or> m = 2 \<or> m = 3 \<or> m = 4 \<or> m = 5 \<or> m = 6 \<or> m = 7 \<or> m = 8 \<or> m = 9 \<or>
         m = 10 \<or> m = 11 \<or> m = 12"
  using assms by arith

lemma days_in_month_pos:
  assumes "1 \<le> m" "m \<le> 12"
  shows "28 \<le> days_in_month y m \<and> days_in_month y m \<le> 31"
  using month_cases [OF assms]
  by (auto simp: days_in_month_def DAYS_IN_MONTH_def)

lemma days_before_month_step:
  assumes "2 \<le> m" "m \<le> 12"
  shows "days_before_month y m = days_before_month y (m - 1) + days_in_month y (m - 1)"
proof -
  from assms have "m = 2 \<or> m = 3 \<or> m = 4 \<or> m = 5 \<or> m = 6 \<or> m = 7 \<or> m = 8 \<or> m = 9 \<or>
         m = 10 \<or> m = 11 \<or> m = 12" by arith
  then show ?thesis
    by (auto simp: days_before_month_def days_in_month_def DAYS_BEFORE_MONTH_def
        DAYS_IN_MONTH_def)
qed

lemma div_succ:
  fixes z n :: int
  assumes n: "0 < n"
  shows "(z + 1) div n = z div n + (if (z + 1) mod n = 0 then 1 else 0)"
proof -
  define q where "q = z div n"
  define r where "r = z mod n"
  have z: "z = n * q + r" by (simp add: q_def r_def)
  have r: "0 \<le> r" "r < n" using n by (simp_all add: r_def)
  show ?thesis
  proof (cases "r + 1 = n")
    case True
    then have e: "z + 1 = n * (q + 1) + 0" using z by (simp add: algebra_simps)
    have d: "(z + 1) div n = q + 1" using n by (subst e) simp
    have m: "(z + 1) mod n = 0" using n by (subst e) simp
    show ?thesis using d m by (simp add: q_def)
  next
    case False
    with r have r1: "0 \<le> r + 1" "r + 1 < n" by simp_all
    have e: "z + 1 = n * q + (r + 1)" using z by simp
    have d: "(z + 1) div n = q" by (rule int_div_pos_eq [OF e r1])
    have m: "(z + 1) mod n = r + 1" by (rule int_mod_pos_eq [OF e r1])
    show ?thesis using d m r by (simp add: q_def)
  qed
qed

lemma days_before_year_step:
  "days_before_year y = days_before_year (y - 1) + (if is_leap (y - 1) then 366 else 365)"
proof -
  define z where "z = y - 2"
  have y: "y - 1 = z + 1" "y - 1 - 1 = z" by (simp_all add: z_def)
  have d400: "(100::int) dvd 400" and d100: "(4::int) dvd 100" by simp_all
  have a: "(z + 1) mod 400 = 0 \<Longrightarrow> (z + 1) mod 100 = 0"
    using dvd_trans [OF d400, of "z + 1"] by (simp add: mod_eq_0_iff_dvd)
  have b: "(z + 1) mod 100 = 0 \<Longrightarrow> (z + 1) mod 4 = 0"
    using dvd_trans [OF d100, of "z + 1"] by (simp add: mod_eq_0_iff_dvd)
  have e4: "(z + 1) div 4 = z div 4 + (if (z + 1) mod 4 = 0 then 1 else 0)"
    by (rule div_succ) simp
  have e100: "(z + 1) div 100 = z div 100 + (if (z + 1) mod 100 = 0 then 1 else 0)"
    by (rule div_succ) simp
  have e400: "(z + 1) div 400 = z div 400 + (if (z + 1) mod 400 = 0 then 1 else 0)"
    by (rule div_succ) simp
  show ?thesis
    unfolding days_before_year_def is_leap_def Let_def y e4 e100 e400
    using a b
    by (cases "(z + 1) mod 4 = 0"; cases "(z + 1) mod 100 = 0"; cases "(z + 1) mod 400 = 0")
      (simp_all add: algebra_simps)
qed

lemma toordinal_prev_day:
  assumes "valid_date d" "prev_day d = Some p"
  shows "toordinal p = toordinal d - 1"
proof -
  consider (a) "day d > 1" | (b) "day d = 1" "month d > 1" | (c) "day d = 1" "month d = 1"
    using assms(1) unfolding valid_date_def by force
  then show ?thesis
  proof cases
    case a
    with assms(2) show ?thesis by (auto simp: prev_day_def toordinal_def)
  next
    case b
    from b assms(1) have m: "2 \<le> month d" "month d \<le> 12" by (auto simp: valid_date_def)
    from b assms(2)
    have p: "p = \<lparr>year = year d, month = month d - 1,
                  day = days_in_month (year d) (month d - 1)\<rparr>"
      by (simp add: prev_day_def)
    show ?thesis
      using days_before_month_step [OF m, of "year d"] b
      by (simp add: p toordinal_def)
  next
    case c
    from c assms(2) have y: "year d > 1" and p: "p = \<lparr>year = year d - 1, month = 12, day = 31\<rparr>"
      by (auto simp: prev_day_def split: if_splits)
    show ?thesis
      using days_before_year_step [of "year d"] c
      by (simp add: p toordinal_def days_before_month_def DAYS_BEFORE_MONTH_def)
  qed
qed

lemma valid_prev_day:
  assumes "valid_date d" "prev_day d = Some p"
  shows "valid_date p"
proof -
  consider (a) "day d > 1" | (b) "day d = 1" "month d > 1" | (c) "day d = 1" "month d = 1"
    using assms(1) unfolding valid_date_def by force
  then show ?thesis
  proof cases
    case a
    with assms show ?thesis by (auto simp: prev_day_def valid_date_def)
  next
    case b
    from b assms(1) have m: "1 \<le> month d - 1" "month d - 1 \<le> 12" by (auto simp: valid_date_def)
    from b assms(2)
    have p: "p = \<lparr>year = year d, month = month d - 1,
                  day = days_in_month (year d) (month d - 1)\<rparr>"
      by (simp add: prev_day_def)
    show ?thesis
      using days_in_month_pos [OF m, of "year d"] assms(1) m
      by (simp add: p valid_date_def)
  next
    case c
    from c assms(2) have y: "year d > 1" and p: "p = \<lparr>year = year d - 1, month = 12, day = 31\<rparr>"
      by (auto simp: prev_day_def split: if_splits)
    show ?thesis
      using assms(1) y
      by (simp add: p valid_date_def days_in_month_def DAYS_IN_MONTH_def)
  qed
qed

lemma date_lt_prev_day:
  assumes "prev_day d = Some p"
  shows "date_lt p d"
  using assms by (auto simp: prev_day_def date_lt_def split: if_splits)

lemma date_lt_trans: "date_lt a b \<Longrightarrow> date_lt b c \<Longrightarrow> date_lt a c"
  by (auto simp: date_lt_def)

lemma date_le_refl: "date_le a a"
  by (simp add: date_le_def date_eq_def)

lemma date_le_trans: "date_le a b \<Longrightarrow> date_le b c \<Longrightarrow> date_le a c"
  by (auto simp: date_le_def date_lt_def date_eq_def)

lemma date_le_total: "date_le a b \<or> date_le b a"
  by (auto simp: date_le_def date_lt_def date_eq_def)

lemma toordinal_ge_1:
  assumes "valid_date d"
  shows "1 \<le> toordinal d"
proof -
  from assms have y: "1 \<le> year d" and m: "1 \<le> month d" "month d \<le> 12" and dd: "1 \<le> day d"
    by (auto simp: valid_date_def)
  have a: "0 \<le> days_before_year (year d)"
  proof -
    have z: "0 \<le> year d - 1" using y by simp
    have "(year d - 1) div 100 \<le> (year d - 1) div 4"
      by (rule zdiv_mono2 [OF z]) simp_all
    moreover have "0 \<le> (year d - 1) div 400" using z by simp
    moreover have "0 \<le> (year d - 1) * 365" using z by simp
    ultimately show ?thesis unfolding days_before_year_def Let_def by linarith
  qed
  have b: "0 \<le> days_before_month (year d) (month d)"
    using month_cases [OF m] by (auto simp: days_before_month_def DAYS_BEFORE_MONTH_def)
  show ?thesis using a b dd by (simp add: toordinal_def)
qed

lemma prev_day_None:
  assumes "valid_date d" "prev_day d = None"
  shows "toordinal d = 1"
proof -
  from assms have "day d = 1" "month d = 1" "year d = 1"
    by (auto simp: prev_day_def valid_date_def split: if_splits)
  then show ?thesis
    by (simp add: toordinal_def days_before_year_def days_before_month_def
        DAYS_BEFORE_MONTH_def)
qed

lemma sub_days_Some:
  "valid_date d \<Longrightarrow> int k < toordinal d \<Longrightarrow>
     \<exists>s. sub_days d k = Some s \<and> valid_date s \<and> toordinal s = toordinal d - int k \<and>
         date_le s d"
proof (induction k arbitrary: d)
  case 0
  then show ?case by (simp add: date_le_refl)
next
  case (Suc k)
  from Suc.prems have "toordinal d \<noteq> 1" by simp
  with prev_day_None [OF Suc.prems(1)] obtain p where p: "prev_day d = Some p"
    by (cases "prev_day d") auto
  have vp: "valid_date p" by (rule valid_prev_day [OF Suc.prems(1) p])
  have tp: "toordinal p = toordinal d - 1" by (rule toordinal_prev_day [OF Suc.prems(1) p])
  from Suc.prems tp have "int k < toordinal p" by simp
  from Suc.IH [OF vp this] obtain s where
    s: "sub_days p k = Some s" "valid_date s" "toordinal s = toordinal p - int k" "date_le s p"
    by blast
  have "date_le p d" using date_lt_prev_day [OF p] by (simp add: date_le_def)
  with s(4) have "date_le s d" by (rule date_le_trans)
  with s p tp show ?case by simp
qed

lemma sub_days_None:
  "valid_date d \<Longrightarrow> toordinal d \<le> int k \<Longrightarrow> sub_days d k = None"
proof (induction k arbitrary: d)
  case 0
  with toordinal_ge_1 [of d] show ?case by simp
next
  case (Suc k)
  show ?case
  proof (cases "prev_day d")
    case None
    then show ?thesis by simp
  next
    case (Some p)
    have vp: "valid_date p" by (rule valid_prev_day [OF Suc.prems(1) Some])
    have "toordinal p = toordinal d - 1" by (rule toordinal_prev_day [OF Suc.prems(1) Some])
    with Suc.prems have "toordinal p \<le> int k" by simp
    from Suc.IH [OF vp this] Some show ?thesis by simp
  qed
qed

lemma weekday_bounds:
  assumes "valid_date d"
  shows "0 \<le> weekday d \<and> weekday d \<le> 6 \<and> weekday d < toordinal d"
proof -
  have t: "1 \<le> toordinal d" by (rule toordinal_ge_1 [OF assms])
  have e: "(toordinal d + 6) mod 7 = (toordinal d - 1) mod 7"
  proof -
    have "toordinal d + 6 = (toordinal d - 1) + 7" by simp
    then show ?thesis by (simp only: mod_add_self2)
  qed
  have "(toordinal d - 1) mod 7 \<le> toordinal d - 1"
    using t by (intro zmod_le_nonneg_dividend) simp
  then show ?thesis unfolding weekday_def e by simp
qed

lemma weekly_start:
  assumes "valid_date today"
  shows "\<exists>s. sub_days today (nat (weekday today)) = Some s \<and> valid_date s \<and> weekday s = 0 \<and>
           toordinal s = toordinal today - weekday today \<and> date_le s today"
proof -
  from weekday_bounds [OF assms] have w: "0 \<le> weekday today" "weekday today < toordinal today"
    by simp_all
  then have "int (nat (weekday today)) < toordinal today" by simp
  from sub_days_Some [OF assms this] obtain s where
    s: "sub_days today (nat (weekday today)) = Some s" "valid_date s"
       "toordinal s = toordinal today - int (nat (weekday today))" "date_le s today"
    by blast
  from s(3) w have ts: "toordinal s = toordinal today - weekday today" by simp
  have "toordinal s + 6 = (toordinal today + 6) - (toordinal today + 6) mod 7"
    by (simp add: ts weekday_def)
  also have "\<dots> = 7 * ((toordinal today + 6) div 7)"
    by (rule minus_mod_eq_mult_div)
  finally have "weekday s = 0" by (simp add: weekday_def)
  with s ts show ?thesis by blast
qed

lemma date_range_Inr:
  assumes "valid_date today"
  shows "\<exists>s. date_range today gt = Inr (s, today) \<and> valid_date s \<and> date_le s today"
proof (cases gt)
  case DAILY
  with assms show ?thesis by (simp add: date_range_def date_le_refl)
next
  case WEEKLY
  from weekly_start [OF assms] obtain s where
    "sub_days today (nat (weekday today)) = Some s" "valid_date s" "date_le s today"
    by blast
  with WEEKLY show ?thesis by (simp add: date_range_def)
next
  case MONTHLY
  have "valid_date (replace_day1 today)"
    using assms days_in_month_pos [of "month today" "year today"]
    by (simp add: valid_date_def replace_day1_def)
  moreover have "date_le (replace_day1 today) today"
    using assms by (auto simp: date_le_def date_lt_def date_eq_def replace_day1_def valid_date_def)
  ultimately show ?thesis using MONTHLY by (simp add: date_range_def)
qed

lemma round_half_even_int: "round_half_even (of_int k) = k"
  by (simp add: round_half_even_def)

lemma round1_100: "round1 100 = 100"
proof -
  have "(100::rat) * 10 = of_int 1000" by simp
  then show ?thesis unfolding round1_def by (simp only: round_half_even_int)
qed

lemma round1_0: "round1 0 = 0"
  by (simp add: round1_def round_half_even_def)

lemma round_half_even_near:
  "\<bar>of_int (round_half_even y) - y\<bar> \<le> 1 / 2"
proof -
  define f where "f = \<lfloor>y\<rfloor>"
  define r where "r = y - of_int f"
  have r: "0 \<le> r" "r < 1" unfolding r_def f_def by linarith+
  have y: "y = of_int f + r" by (simp add: r_def)
  have "round_half_even y =
     (if r < 1 / 2 then f else if r > 1 / 2 then f + 1 else if even f then f else f + 1)"
    by (simp add: round_half_even_def f_def r_def)
  then show ?thesis using r unfolding y by (auto simp: abs_if)
qed

lemma round1_near: "\<bar>round1 x - x\<bar> \<le> 1 / 20"
proof -
  have "\<bar>round1 x - x\<bar> = \<bar>of_int (round_half_even (x * 10)) - x * 10\<bar> / 10"
    by (simp add: round1_def abs_if field_simps)
  also have "\<dots> \<le> (1 / 2) / 10"
    using round_half_even_near [of "x * 10"] by (simp add: divide_right_mono)
  finally show ?thesis by simp
qed

lemma round1_tenth: "\<exists>k::int. round1 x = of_int k / 10"
  unfolding round1_def by blast

section \<open>Binary floating point\<close>

lemma float64_1: "float64 1 = 1"
  by code_simp

lemma float64_100: "float64 100 = 100"
  by code_simp

lemma pow2_pos: "0 < pow2 e"
  by (simp add: pow2_def)

lemma pow2_add: "pow2 (a + b) = pow2 a * pow2 b"
  by (simp add: pow2_def power_int_add)

lemma pow2_mono: "a \<le> b \<Longrightarrow> pow2 a \<le> pow2 b"
  by (simp add: pow2_def power_int_increasing)

lemma pow2_less_imp: "pow2 a < pow2 b \<Longrightarrow> a < b"
  using pow2_mono [of b a] by (cases "a < b") simp_all

lemma pow2_nat: "0 \<le> e \<Longrightarrow> pow2 e = 2 ^ nat e"
  by (simp add: pow2_def power_int_def)

lemma pow2_52: "pow2 52 = of_int (2 ^ 52)" and pow2_53: "pow2 53 = of_int (2 ^ 53)"
  by (simp_all add: pow2_nat)

lemma bitlen_rat:
  assumes "0 < (k::int)"
  shows "pow2 (bitlen k - 1) \<le> of_int k \<and> of_int k < pow2 (bitlen k)"
proof -
  from bitlen_bounds [OF assms]
  have a: "2 ^ nat (bitlen k - 1) \<le> k" and b: "k < 2 ^ nat (bitlen k)" by simp_all
  from assms have "bitlen k \<noteq> 0" by (simp add: bitlen_eq_zero_iff)
  with bitlen_nonneg [of k] have n: "0 \<le> bitlen k - 1" "0 \<le> bitlen k" by simp_all
  from a have "(of_int (2 ^ nat (bitlen k - 1)) :: rat) \<le> of_int k" by (simp only: of_int_le_iff)
  then have a': "pow2 (bitlen k - 1) \<le> of_int k" by (simp add: pow2_nat [OF n(1)])
  from b have "(of_int k :: rat) < of_int (2 ^ nat (bitlen k))" by (simp only: of_int_less_iff)
  then have b': "of_int k < pow2 (bitlen k)" by (simp add: pow2_nat [OF n(2)])
  from a' b' show ?thesis ..
qed

lemma exponent_bounds:
  assumes "0 < y"
  shows "pow2 (exponent y) \<le> y \<and> y < pow2 (exponent y + 1)"
proof -
  obtain p q where pq: "quotient_of y = (p, q)" by (cases "quotient_of y")
  have y: "y = of_int p / of_int q" by (rule quotient_of_div [OF pq])
  have q: "0 < q" by (rule quotient_of_denom_pos [OF pq])
  from assms q have p: "0 < p" by (simp add: y zero_less_divide_iff)
  define e0 where "e0 = bitlen p - bitlen q"
  from bitlen_rat [OF p] have p1: "pow2 (bitlen p - 1) \<le> of_int p" and p2: "of_int p < pow2 (bitlen p)"
    by simp_all
  from bitlen_rat [OF q] have q1: "pow2 (bitlen q - 1) \<le> of_int q" and q2: "of_int q < pow2 (bitlen q)"
    by simp_all
  have qr: "(0::rat) < of_int q" using q by simp
  have up: "y < pow2 (e0 + 1)"
  proof -
    have "of_int p < pow2 (bitlen p)" by (rule p2)
    also have "\<dots> = pow2 (e0 + 1) * pow2 (bitlen q - 1)"
      unfolding pow2_add [symmetric] e0_def by simp
    also have "\<dots> \<le> pow2 (e0 + 1) * of_int q"
      using q1 pow2_pos [of "e0 + 1"] by (simp add: mult_left_mono)
    finally show ?thesis using qr by (simp add: y pos_divide_less_eq)
  qed
  have lo: "pow2 (e0 - 1) \<le> y"
  proof -
    have "pow2 (e0 - 1) * of_int q \<le> pow2 (e0 - 1) * pow2 (bitlen q)"
      using q2 pow2_pos [of "e0 - 1"] by (simp add: mult_left_mono)
    also have "\<dots> = pow2 (bitlen p - 1)"
      unfolding pow2_add [symmetric] e0_def by simp
    also have "\<dots> \<le> of_int p" by (rule p1)
    finally show ?thesis using qr by (simp add: y pos_le_divide_eq)
  qed
  have ex: "exponent y = (if pow2 e0 \<le> y then e0 else e0 - 1)"
    by (simp add: exponent_def pq e0_def)
  show ?thesis
  proof (cases "pow2 e0 \<le> y")
    case True
    with up ex show ?thesis by simp
  next
    case False
    with lo ex show ?thesis by simp
  qed
qed

lemma round_half_even_cases:
  "round_half_even y = \<lfloor>y\<rfloor> \<or> round_half_even y = \<lfloor>y\<rfloor> + 1"
  by (simp add: round_half_even_def Let_def)

lemma round_half_even_ge:
  assumes "of_int k \<le> y"
  shows "k \<le> round_half_even y"
proof -
  from assms have "k \<le> \<lfloor>y\<rfloor>" by (simp add: le_floor_iff)
  with round_half_even_cases [of y] show ?thesis by auto
qed

lemma round_half_even_le:
  assumes "y \<le> of_int k"
  shows "round_half_even y \<le> k"
proof (cases "y = of_int \<lfloor>y\<rfloor>")
  case True
  then have "round_half_even y = \<lfloor>y\<rfloor>"
    by (metis round_half_even_int)
  moreover from floor_mono [OF assms] have "\<lfloor>y\<rfloor> \<le> k" by simp
  ultimately show ?thesis by simp
next
  case False
  then have ne: "of_int \<lfloor>y\<rfloor> \<noteq> y" by (rule not_sym)
  have "of_int \<lfloor>y\<rfloor> < y"
    by (rule order.not_eq_order_implies_strict [OF ne of_int_floor_le])
  with assms have "(of_int \<lfloor>y\<rfloor> :: rat) < of_int k" by simp
  then have "\<lfloor>y\<rfloor> < k" by (simp only: of_int_less_iff)
  with round_half_even_cases [of y] show ?thesis by auto
qed

lemma round_half_even_mono:
  assumes "a \<le> b"
  shows "round_half_even a \<le> round_half_even b"
proof (cases "\<lfloor>a\<rfloor> = \<lfloor>b\<rfloor>")
  case True
  with assms show ?thesis
    by (auto simp: round_half_even_def Let_def)
next
  case False
  with assms have "\<lfloor>a\<rfloor> < \<lfloor>b\<rfloor>" using floor_mono [OF assms] by simp
  with round_half_even_cases [of a] round_half_even_cases [of b] show ?thesis by auto
qed

lemma float64_pos_eq:
  "0 < x \<Longrightarrow> float64 x = of_int (round_half_even (x / pow2 (exponent x - 52))) * pow2 (exponent x - 52)"
  by (simp add: float64_def Let_def)

lemma float64_bounds:
  assumes "0 < x"
  shows "pow2 (exponent x) \<le> float64 x \<and> float64 x \<le> pow2 (exponent x + 1)"
proof -
  define e where "e = exponent x"
  define u where "u = pow2 (e - 52)"
  have u: "0 < u" by (simp add: u_def pow2_pos)
  from exponent_bounds [OF assms] have b: "pow2 e \<le> x" "x < pow2 (e + 1)" by (simp_all add: e_def)
  have "e = 52 + (e - 52)" by simp
  then have "pow2 e = pow2 52 * pow2 (e - 52)" by (simp only: pow2_add [symmetric])
  then have e1: "pow2 e = of_int (2 ^ 52) * u" by (simp only: u_def pow2_52)
  have "e + 1 = 53 + (e - 52)" by simp
  then have "pow2 (e + 1) = pow2 53 * pow2 (e - 52)" by (simp only: pow2_add [symmetric])
  then have e2: "pow2 (e + 1) = of_int (2 ^ 53) * u" by (simp only: u_def pow2_53)
  from b(1) u have "of_int (2 ^ 52) \<le> x / u" by (simp add: e1 pos_le_divide_eq)
  then have lo: "2 ^ 52 \<le> round_half_even (x / u)" by (rule round_half_even_ge)
  from b(2) u have "x / u \<le> of_int (2 ^ 53)" by (simp add: e2 pos_divide_le_eq less_imp_le)
  then have hi: "round_half_even (x / u) \<le> 2 ^ 53" by (rule round_half_even_le)
  have f: "float64 x = of_int (round_half_even (x / u)) * u"
    by (simp add: float64_pos_eq [OF assms] u_def e_def)
  from lo have "(of_int (2 ^ 52) :: rat) \<le> of_int (round_half_even (x / u))"
    by (simp only: of_int_le_iff)
  then have 1: "pow2 e \<le> float64 x" unfolding e1 f using u by (simp add: mult_right_mono)
  from hi have "(of_int (round_half_even (x / u)) :: rat) \<le> of_int (2 ^ 53)"
    by (simp only: of_int_le_iff)
  then have 2: "float64 x \<le> pow2 (e + 1)" unfolding e2 f using u by (simp add: mult_right_mono)
  from 1 2 show ?thesis by (simp add: e_def)
qed

lemma float64_pos: "0 < x \<Longrightarrow> 0 < float64 x"
  using float64_bounds [of x] pow2_pos [of "exponent x"] by simp

lemma float64_mono_pos:
  assumes "0 < a" "a \<le> b"
  shows "float64 a \<le> float64 b"
proof -
  from assms have b: "0 < b" by simp
  from exponent_bounds [OF assms(1)] exponent_bounds [OF b] assms(2)
  have "pow2 (exponent a) < pow2 (exponent b + 1)" by simp
  then have le: "exponent a \<le> exponent b" using pow2_less_imp by fastforce
  show ?thesis
  proof (cases "exponent a = exponent b")
    case True
    define u where "u = pow2 (exponent b - 52)"
    have u: "0 < u" by (simp add: u_def pow2_pos)
    from assms(2) u have "a / u \<le> b / u" by (simp add: divide_right_mono)
    then have "round_half_even (a / u) \<le> round_half_even (b / u)" by (rule round_half_even_mono)
    then have "(of_int (round_half_even (a / u)) :: rat) \<le> of_int (round_half_even (b / u))"
      by (simp only: of_int_le_iff)
    then have "of_int (round_half_even (a / u)) * u \<le> of_int (round_half_even (b / u)) * u"
      using u by (simp add: mult_right_mono)
    then show ?thesis
      by (simp add: float64_pos_eq [OF assms(1)] float64_pos_eq [OF b] True u_def)
  next
    case False
    with le have "exponent a + 1 \<le> exponent b" by simp
    then have "pow2 (exponent a + 1) \<le> pow2 (exponent b)" by (rule pow2_mono)
    with float64_bounds [OF assms(1)] float64_bounds [OF b] show ?thesis by simp
  qed
qed

lemma float_round1_100: "float_round1 100 = 100"
  by (simp only: float_round1_def round1_100 float64_100)

lemma float_round1_0: "float_round1 0 = 0"
  by (simp add: float_round1_def round1_0 float64_def)

lemma float64_rel:
  assumes "0 < x"
  shows "(1 - 1 / 2 ^ 53) * x \<le> float64 x \<and> float64 x \<le> (1 + 1 / 2 ^ 53) * x"
proof -
  define e where "e = exponent x"
  define u where "u = pow2 (e - 52)"
  define k where "k = round_half_even (x / u)"
  have u: "0 < u" by (simp add: u_def pow2_pos)
  from exponent_bounds [OF assms] have b: "pow2 e \<le> x" by (simp add: e_def)
  have "e = 52 + (e - 52)" by simp
  then have "pow2 e = pow2 52 * pow2 (e - 52)" by (simp only: pow2_add [symmetric])
  then have e1: "pow2 e = 2 ^ 52 * u" by (simp add: u_def pow2_52)
  from b have ux: "u \<le> x / 2 ^ 52" unfolding e1 by (simp add: field_simps)
  have f: "float64 x = of_int k * u"
    by (simp add: float64_pos_eq [OF assms] u_def e_def k_def)
  from round_half_even_near [of "x / u"] have "\<bar>of_int k - x / u\<bar> \<le> 1 / 2"
    unfolding k_def .
  then have "\<bar>of_int k - x / u\<bar> * u \<le> 1 / 2 * u"
    using u by (simp only: mult_right_mono less_imp_le)
  moreover have "\<bar>of_int k - x / u\<bar> * u = \<bar>of_int k * u - x\<bar>"
    using u by (simp add: abs_if field_simps)
  ultimately have "\<bar>float64 x - x\<bar> \<le> u / 2" unfolding f by simp
  also from ux have "u / 2 \<le> x / 2 ^ 53" by simp
  finally have "\<bar>float64 x - x\<bar> \<le> x / 2 ^ 53" .
  then have "x - x / 2 ^ 53 \<le> float64 x" "float64 x \<le> x + x / 2 ^ 53"
    by linarith+
  then show ?thesis by (simp add: algebra_simps)
qed

text \<open>
  The float computation of the capped percentage is within \<open>10\<^sup>-\<^sup>1\<^sup>2\<close> of its exact value,
  for a current value that is not negative.
\<close>

lemma percentage_error:
  assumes "0 \<le> cv" "0 < tv"
  shows "\<bar>min 100 (float64 (float64 (float64 cv / float64 tv) * 100)) -
          min 100 (cv / tv * 100)\<bar> \<le> 1 / 10 ^ 12"
proof (cases "cv = 0")
  case True
  then show ?thesis by (simp add: float64_def)
next
  case False
  with assms have cv: "0 < cv" by simp
  define L :: rat where "L = 1 - 1 / 2 ^ 53"
  define U :: rat where "U = 1 + 1 / 2 ^ 53"
  have L: "0 < L" and U: "0 < U" by (simp_all add: L_def U_def)
  define a where "a = float64 cv"
  define b where "b = float64 tv"
  define q where "q = float64 (a / b)"
  define m where "m = float64 (q * 100)"
  define e where "e = cv / tv * 100"
  have e: "0 < e" using cv assms(2) by (simp add: e_def)
  have a: "0 < a" "L * cv \<le> a" "a \<le> U * cv"
    using float64_pos [OF cv] float64_rel [OF cv] by (simp_all add: a_def L_def U_def)
  have b: "0 < b" "L * tv \<le> b" "b \<le> U * tv"
    using float64_pos [OF assms(2)] float64_rel [OF assms(2)]
    by (simp_all add: b_def L_def U_def)
  have ab: "0 < a / b" using a(1) b(1) by simp
  have q: "0 < q" "L * (a / b) \<le> q" "q \<le> U * (a / b)"
    using float64_pos [OF ab] float64_rel [OF ab] by (simp_all add: q_def L_def U_def)
  have q100: "0 < q * 100" using q(1) by simp
  have m: "L * (q * 100) \<le> m" "m \<le> U * (q * 100)"
    using float64_rel [OF q100] by (simp_all add: m_def L_def U_def)
  have Ucv: "0 \<le> U * cv" and Ltv: "0 < L * tv" using L U cv assms(2) by simp_all
  have abU: "a / b \<le> (U * cv) / (L * tv)"
    by (rule frac_le [OF Ucv a(3) Ltv b(2)])
  have abL: "(L * cv) / (U * tv) \<le> a / b"
    by (rule frac_le [OF less_imp_le [OF a(1)] a(2) b(1) b(3)])
  have "q \<le> U * ((U * cv) / (L * tv))"
    using q(3) mult_left_mono [OF abU less_imp_le [OF U]] by (rule order_trans)
  then have "q * 100 \<le> U * ((U * cv) / (L * tv)) * 100"
    by (rule mult_right_mono) simp
  then have "U * (q * 100) \<le> U * (U * ((U * cv) / (L * tv)) * 100)"
    by (rule mult_left_mono [OF _ less_imp_le [OF U]])
  with m(2) have up: "m \<le> U * (U * ((U * cv) / (L * tv)) * 100)" by (rule order_trans)
  have "L * ((L * cv) / (U * tv)) \<le> q"
    using mult_left_mono [OF abL less_imp_le [OF L]] q(2) by (rule order_trans)
  then have "L * ((L * cv) / (U * tv)) * 100 \<le> q * 100"
    by (rule mult_right_mono) simp
  then have "L * (L * ((L * cv) / (U * tv)) * 100) \<le> L * (q * 100)"
    by (rule mult_left_mono [OF _ less_imp_le [OF L]])
  then have lo: "L * (L * ((L * cv) / (U * tv)) * 100) \<le> m" using m(1) by (rule order_trans)
  have eU: "U * (U * ((U * cv) / (L * tv)) * 100) = (U * U * U / L) * e"
    by (simp add: e_def)
  have eL: "L * (L * ((L * cv) / (U * tv)) * 100) = (L * L * L / U) * e"
    by (simp add: e_def)
  have cU: "U * U * U / L \<le> 1 + 5 / 2 ^ 53" by (simp add: U_def L_def)
  have cL: "1 - 5 / 2 ^ 53 \<le> L * L * L / U" by (simp add: U_def L_def)
  from up have "m \<le> (U * U * U / L) * e" by (simp only: eU)
  also have "\<dots> \<le> (1 + 5 / 2 ^ 53) * e"
    by (rule mult_right_mono [OF cU less_imp_le [OF e]])
  finally have mu: "m \<le> e + 5 / 2 ^ 53 * e" by (simp add: algebra_simps)
  have "(1 - 5 / 2 ^ 53) * e \<le> (L * L * L / U) * e"
    by (rule mult_right_mono [OF cL less_imp_le [OF e]])
  also from lo have "\<dots> \<le> m" by (simp only: eL)
  finally have ml: "e - 5 / 2 ^ 53 * e \<le> m" by (simp add: algebra_simps)
  have goal: "\<bar>min 100 m - min 100 e\<bar> \<le> 1 / 10 ^ 12"
  proof (cases "e \<le> 200")
    case True
    then have "5 / 2 ^ 53 * e \<le> 1 / 10 ^ 12" by simp
    with mu ml have "\<bar>m - e\<bar> \<le> 1 / 10 ^ 12" by linarith
    moreover have "\<bar>min 100 m - min 100 e\<bar> \<le> \<bar>m - e\<bar>" by (simp add: min_def abs_if)
    ultimately show ?thesis by (rule order_trans [rotated])
  next
    case False
    then have "100 < e - 5 / 2 ^ 53 * e" by simp
    with ml have "100 < m" by simp
    with False show ?thesis by simp
  qed
  then show ?thesis unfolding m_def q_def a_def b_def e_def .
qed

section \<open>Goal progress: percentage and direction\<close>

lemma get_progress_Inr:
  assumes "valid_date today"
  shows "\<exists>s cv. date_range today (goal_type g) = Inr (s, today) \<and> valid_date s \<and>
           date_le s today \<and>
           cv = (if goal_type g = DAILY then or_0 (aggregate_Sum (metrics_in_range db g s today))
                 else or_0 (aggregate_Avg (metrics_in_range db g s today))) \<and>
           get_progress today db g =
             Inr \<lparr>current_value = cv, p_target_value = target_value g,
                  percentage = float_round1 (if target_value g > 0
                   then min 100 (float64 (float64 (float64 cv / float64 (target_value g)) * 100))
                   else 0),
                  period_start = s, period_end = today\<rparr>"
proof -
  from date_range_Inr [OF assms, of "goal_type g"] obtain s where
    s: "date_range today (goal_type g) = Inr (s, today)" "valid_date s" "date_le s today"
    by blast
  then show ?thesis by (simp add: get_progress_def Let_def)
qed

text \<open>
  The progress from its three parts: the window, the aggregate over the window, and the
  percentage of the aggregate.
\<close>

lemma get_progress_eval:
  assumes "date_range today (goal_type g) = Inr (s, e)"
    and "or_0 ((if goal_type g = DAILY then aggregate_Sum else aggregate_Avg)
           (metrics_in_range db g s e)) = cv"
    and "target_value g = tv"
    and "float_round1 (if tv > 0
            then min 100 (float64 (float64 (float64 cv / float64 tv) * 100))
            else 0) = pc"
  shows "get_progress today db g =
           Inr \<lparr>current_value = cv, p_target_value = tv, percentage = pc,
                period_start = s, period_end = e\<rparr>"
  using assms by (auto simp add: get_progress_def Let_def)

text \<open>The progress of three goals of the sample data on 15 May 2024.\<close>

lemma ex_progress_daily:
  "get_progress ex_today ex_db (ex_goal 1 1 10000 DAILY) =
     Inr \<lparr>current_value = 8000, p_target_value = 10000, percentage = 80,
          period_start = ex_today, period_end = ex_today\<rparr>"
proof (rule get_progress_eval)
  show "date_range ex_today (goal_type (ex_goal 1 1 10000 DAILY)) = Inr (ex_today, ex_today)"
    by code_simp
  show "or_0 ((if goal_type (ex_goal 1 1 10000 DAILY) = DAILY then aggregate_Sum
               else aggregate_Avg)
          (metrics_in_range ex_db (ex_goal 1 1 10000 DAILY) ex_today ex_today)) = 8000"
    by code_simp
  show "target_value (ex_goal 1 1 10000 DAILY) = 10000"
    by code_simp
  show "float_round1 (if (10000::rat) > 0
          then min 100 (float64 (float64 (float64 8000 / float64 10000) * 100))
          else 0) = 80"
    by code_simp
qed

lemma ex_progress_weekly:
  "get_progress ex_today ex_db (ex_goal 2 2 8 WEEKLY) =
     Inr \<lparr>current_value = 4, p_target_value = 8, percentage = 50,
          period_start = \<lparr>year = 2024, month = 5, day = 13\<rparr>, period_end = ex_today\<rparr>"
proof (rule get_progress_eval)
  show "date_range ex_today (goal_type (ex_goal 2 2 8 WEEKLY)) =
          Inr (\<lparr>year = 2024, month = 5, day = 13\<rparr>, ex_today)"
    by code_simp
  show "or_0 ((if goal_type (ex_goal 2 2 8 WEEKLY) = DAILY then aggregate_Sum
               else aggregate_Avg)
          (metrics_in_range ex_db (ex_goal 2 2 8 WEEKLY)
             \<lparr>year = 2024, month = 5, day = 13\<rparr> ex_today)) = 4"
    by code_simp
  show "target_value (ex_goal 2 2 8 WEEKLY) = 8"
    by code_simp
  show "float_round1 (if (8::rat) > 0
          then min 100 (float64 (float64 (float64 4 / float64 8) * 100))
          else 0) = 50"
    by code_simp
qed

lemma ex_progress_monthly:
  "get_progress ex_today ex_db
     ((ex_goal 6 1 100000 MONTHLY)\<lparr>end_date := Some \<lparr>year = 2024, month = 5, day = 15\<rparr>\<rparr>) =
     Inr \<lparr>current_value = 6000, p_target_value = 100000, percentage = 6,
          period_start = \<lparr>year = 2024, month = 5, day = 1\<rparr>, period_end = ex_today\<rparr>"
proof (rule get_progress_eval)
  show "date_range ex_today (goal_type ((ex_goal 6 1 100000 MONTHLY)
          \<lparr>end_date := Some \<lparr>year = 2024, month = 5, day = 15\<rparr>\<rparr>)) =
          Inr (\<lparr>year = 2024, month = 5, day = 1\<rparr>, ex_today)"
    by code_simp
  show "or_0 ((if goal_type ((ex_goal 6 1 100000 MONTHLY)
                  \<lparr>end_date := Some \<lparr>year = 2024, month = 5, day = 15\<rparr>\<rparr>) = DAILY
               then aggregate_Sum else aggregate_Avg)
          (metrics_in_range ex_db ((ex_goal 6 1 100000 MONTHLY)
              \<lparr>end_date := Some \<lparr>year = 2024, month = 5, day = 15\<rparr>\<rparr>)
             \<lparr>year = 2024, month = 5, day = 1\<rparr> ex_today)) = 6000"
    by code_simp
  show "target_value ((ex_goal 6 1 100000 MONTHLY)
          \<lparr>end_date := Some \<lparr>year = 2024, month = 5, day = 15\<rparr>\<rparr>) = 100000"
    by code_simp
  show "float_round1 (if (100000::rat) > 0
          then min 100 (float64 (float64 (float64 6000 / float64 100000) * 100))
          else 0) = 6"
    by code_simp
qed

text \<open>
  C1, as the code has it. For every goal and metric history the progress is computed (no
  error). When the target is positive the percentage is
  \<^verbatim>\<open>round(min(100, float(current_value) / float(target_value) * 100), 1)\<close> in binary
  floating point. For a current value that is not negative this is the float nearest to a
  number with one decimal place that lies within \<open>0.05 + 10\<^sup>-\<^sup>1\<^sup>2\<close> of the exact
  \<open>min(100, current_value / target_value \<times> 100)\<close>; and it is the float nearest to the
  exact value rounded to one decimal place, unless the exact value lies within \<open>10\<^sup>-\<^sup>1\<^sup>2\<close>
  of the middle between two numbers with one decimal place. The percentage is 0 when the
  target is 0 (or negative), and exactly 100 whenever
  \<open>current_value \<ge> target_value > 0\<close>.
\<close>

theorem progress_percentage:
  assumes "valid_date today"
  shows "\<exists>p. get_progress today db g = Inr p \<and> p_target_value p = target_value g \<and>
           (0 < target_value g \<longrightarrow>
              percentage p =
                float64 (round1 (min 100
                  (float64 (float64 (float64 (current_value p) / float64 (target_value g))
                     * 100))))) \<and>
           (0 < target_value g \<and> 0 \<le> current_value p \<longrightarrow>
              (\<exists>k::int. percentage p = float64 (of_int k / 10) \<and>
                 \<bar>of_int k / 10 - min 100 (current_value p / target_value g * 100)\<bar>
                   \<le> 1 / 20 + 1 / 10 ^ 12)) \<and>
           (0 < target_value g \<and> 0 \<le> current_value p \<and>
            \<bar>round1 (min 100 (current_value p / target_value g * 100)) -
               min 100 (current_value p / target_value g * 100)\<bar> < 1 / 20 - 1 / 10 ^ 12 \<longrightarrow>
              percentage p =
                float64 (round1 (min 100 (current_value p / target_value g * 100)))) \<and>
           (target_value g \<le> 0 \<longrightarrow> percentage p = 0) \<and>
           (0 < target_value g \<and> target_value g \<le> current_value p \<longrightarrow> percentage p = 100)"
proof -
  define tv where "tv = target_value g"
  from get_progress_Inr [OF assms, of g db] obtain s cv where
    p: "get_progress today db g =
          Inr \<lparr>current_value = cv, p_target_value = tv,
               percentage = float_round1 (if tv > 0
                   then min 100 (float64 (float64 (float64 cv / float64 tv) * 100))
                   else 0),
               period_start = s, period_end = today\<rparr>"
    unfolding tv_def by blast
  define x where "x = min 100 (float64 (float64 (float64 cv / float64 tv) * 100))"
  define E where "E = min 100 (cv / tv * 100)"
  define r where "r = \<lparr>current_value = cv, p_target_value = tv,
               percentage = float_round1 (if tv > 0 then x else 0),
               period_start = s, period_end = today\<rparr>"
  have gp: "get_progress today db g = Inr r" unfolding r_def x_def by (rule p)
  have sel: "current_value r = cv" "p_target_value r = tv"
    "percentage r = float_round1 (if tv > 0 then x else 0)"
    by (simp_all add: r_def)
  have full: "x = 100" if "0 < tv" "tv \<le> cv"
  proof -
    have b: "0 < float64 tv" by (rule float64_pos [OF that(1)])
    have ab: "float64 tv \<le> float64 cv" by (rule float64_mono_pos [OF that])
    from b ab have one: "1 \<le> float64 cv / float64 tv" by (simp add: le_divide_eq)
    have "float64 1 \<le> float64 (float64 cv / float64 tv)"
      by (rule float64_mono_pos [OF _ one]) simp
    then have q: "1 \<le> float64 (float64 cv / float64 tv)" by (simp only: float64_1)
    then have h: "100 \<le> float64 (float64 cv / float64 tv) * 100" by simp
    have "float64 100 \<le> float64 (float64 (float64 cv / float64 tv) * 100)"
      by (rule float64_mono_pos [OF _ h]) simp
    then have "100 \<le> float64 (float64 (float64 cv / float64 tv) * 100)"
      by (simp only: float64_100)
    then show ?thesis unfolding x_def by (simp only: min_absorb1)
  qed
  have err: "\<bar>x - E\<bar> \<le> 1 / 10 ^ 12" if "0 < tv" "0 \<le> cv"
    unfolding x_def E_def by (rule percentage_error [OF that(2) that(1)])
  from round1_tenth [of x] obtain k :: int where k: "round1 x = of_int k / 10" ..
  from round1_tenth [of E] obtain j :: int where j: "round1 E = of_int j / 10" ..
  have near: "\<bar>of_int k / 10 - x\<bar> \<le> 1 / 20"
    using round1_near [of x] unfolding k .
  have h1: "p_target_value r = target_value g" by (simp add: sel tv_def)
  have h2: "percentage r = float64 (round1 x)" if "0 < tv"
    using that by (simp add: sel float_round1_def)
  have h3: "\<exists>k::int. percentage r = float64 (of_int k / 10) \<and>
              \<bar>of_int k / 10 - E\<bar> \<le> 1 / 20 + 1 / 10 ^ 12"
    if "0 < tv \<and> 0 \<le> cv"
  proof -
    from that have t: "0 < tv" and c: "0 \<le> cv" by simp_all
    have e2: "percentage r = float64 (of_int k / 10)" unfolding h2 [OF t] k ..
    from near err [OF t c] have "\<bar>of_int k / 10 - E\<bar> \<le> 1 / 20 + 1 / 10 ^ 12"
      by linarith
    with e2 show ?thesis by blast
  qed
  have h4: "percentage r = float64 (round1 E)"
    if "0 < tv \<and> 0 \<le> cv \<and> \<bar>round1 E - E\<bar> < 1 / 20 - 1 / 10 ^ 12"
  proof -
    from that have t: "0 < tv" and c: "0 \<le> cv"
      and d: "\<bar>of_int j / 10 - E\<bar> < 1 / 20 - 1 / 10 ^ 12"
      unfolding j by simp_all
    from near err [OF t c] d have "\<bar>(of_int k :: rat) / 10 - of_int j / 10\<bar> < 1 / 10"
      by linarith
    then have "\<bar>(of_int k :: rat) - of_int j\<bar> < 1" by linarith
    then have "\<bar>(of_int (k - j) :: rat)\<bar> < of_int 1" by simp
    then have "\<bar>k - j\<bar> < 1" by (simp only: of_int_abs [symmetric] of_int_less_iff)
    then have "k = j" by simp
    then have "round1 x = round1 E" unfolding k j by simp
    then show ?thesis unfolding h2 [OF t] by simp
  qed
  have h5: "percentage r = 0" if "tv \<le> 0"
    using that by (simp add: sel float_round1_0)
  have h6: "percentage r = 100" if "0 < tv \<and> tv \<le> cv"
    using that full by (simp add: sel float_round1_100)
  have r1: "cv = current_value r" by (simp only: sel)
  show ?thesis
  proof (rule exI [of _ r], intro conjI)
    show "get_progress today db g = Inr r" by (rule gp)
    show "p_target_value r = target_value g" by (rule h1)
    show "0 < target_value g \<longrightarrow>
          percentage r =
            float64 (round1 (min 100
              (float64 (float64 (float64 (current_value r) / float64 (target_value g))
                 * 100))))"
      using h2 unfolding x_def r1 tv_def by blast
    show "0 < target_value g \<and> 0 \<le> current_value r \<longrightarrow>
          (\<exists>k::int. percentage r = float64 (of_int k / 10) \<and>
            \<bar>of_int k / 10 - min 100 (current_value r / target_value g * 100)\<bar>
              \<le> 1 / 20 + 1 / 10 ^ 12)"
      using h3 unfolding E_def r1 tv_def by blast
    show "0 < target_value g \<and> 0 \<le> current_value r \<and>
          \<bar>round1 (min 100 (current_value r / target_value g * 100)) -
             min 100 (current_value r / target_value g * 100)\<bar> < 1 / 20 - 1 / 10 ^ 12 \<longrightarrow>
          percentage r =
            float64 (round1 (min 100 (current_value r / target_value g * 100)))"
      using h4 unfolding E_def r1 tv_def by blast
    show "target_value g \<le> 0 \<longrightarrow> percentage r = 0"
      using h5 unfolding tv_def by blast
    show "0 < target_value g \<and> target_value g \<le> current_value r \<longrightarrow> percentage r = 100"
      using h6 unfolding r1 tv_def by blast
  qed
qed

theorem progress_percentage_witness:
  "valid_date ex_today \<and>
   get_progress ex_today ex_db (ex_goal 1 1 10000 DAILY) =
     Inr \<lparr>current_value = 8000, p_target_value = 10000, percentage = 80,
          period_start = ex_today, period_end = ex_today\<rparr> \<and>
   (0::rat) < 10000 \<and> (0::rat) \<le> 8000 \<and>
   \<bar>round1 (min 100 (8000 / 10000 * 100)) - min 100 (8000 / 10000 * 100)\<bar>
      < 1 / 20 - 1 / 10 ^ 12 \<and>
   float64 (round1 (min 100 (8000 / 10000 * 100))) = 80 \<and>
   (\<exists>p. get_progress ex_today ex_db (ex_goal 1 1 6000 DAILY) = Inr p \<and> percentage p = 100) \<and>
   (\<exists>p. get_progress ex_today ex_db (ex_goal 1 1 0 DAILY) = Inr p \<and> percentage p = 0)"
proof -
  have v: "valid_date ex_today" by code_simp
  note a = ex_progress_daily
  have t1: "target_value (ex_goal 1 1 10000 DAILY) = 10000"
    and t6: "target_value (ex_goal 1 1 6000 DAILY) = 6000"
    and t0: "target_value (ex_goal 1 1 0 DAILY) = 0"
    by (simp_all add: ex_goal_def)
  have n: "\<bar>round1 (min 100 (8000 / 10000 * 100)) - min 100 (8000 / 10000 * 100)\<bar>
      < 1 / 20 - 1 / 10 ^ 12"
    by code_simp
  from progress_percentage [OF v, of ex_db "ex_goal 1 1 10000 DAILY"] obtain o' where
    o: "get_progress ex_today ex_db (ex_goal 1 1 10000 DAILY) = Inr o'"
      "0 < target_value (ex_goal 1 1 10000 DAILY) \<and> 0 \<le> current_value o' \<and>
       \<bar>round1 (min 100 (current_value o' / target_value (ex_goal 1 1 10000 DAILY) * 100)) -
          min 100 (current_value o' / target_value (ex_goal 1 1 10000 DAILY) * 100)\<bar>
         < 1 / 20 - 1 / 10 ^ 12 \<longrightarrow>
       percentage o' =
         float64 (round1 (min 100
           (current_value o' / target_value (ex_goal 1 1 10000 DAILY) * 100)))"
    by blast
  from o(1) have o': "o' = \<lparr>current_value = 8000, p_target_value = 10000, percentage = 80,
          period_start = ex_today, period_end = ex_today\<rparr>"
    unfolding a by (simp only: sum.inject)
  have oc: "current_value o' = 8000" and op: "percentage o' = 80"
    unfolding o' by (simp_all only: Progress.select_convs)
  from o(2) n have f: "float64 (round1 (min 100 (8000 / 10000 * 100))) = 80"
    unfolding oc op t1 by simp
  have d6: "date_range ex_today (goal_type (ex_goal 1 1 6000 DAILY)) = Inr (ex_today, ex_today)"
    by code_simp
  have s6: "or_0 ((if goal_type (ex_goal 1 1 6000 DAILY) = DAILY then aggregate_Sum
               else aggregate_Avg)
          (metrics_in_range ex_db (ex_goal 1 1 6000 DAILY) ex_today ex_today)) = 8000"
    by code_simp
  note e6 = get_progress_eval [OF d6 s6 t6 refl]
  from progress_percentage [OF v, of ex_db "ex_goal 1 1 6000 DAILY"] obtain p where
    p: "get_progress ex_today ex_db (ex_goal 1 1 6000 DAILY) = Inr p"
      "0 < target_value (ex_goal 1 1 6000 DAILY) \<and>
       target_value (ex_goal 1 1 6000 DAILY) \<le> current_value p \<longrightarrow> percentage p = 100"
    by blast
  from p(1) have "current_value p = current_value
      \<lparr>current_value = 8000, p_target_value = 6000,
       percentage = float_round1 (if (6000::rat) > 0
            then min 100 (float64 (float64 (float64 8000 / float64 6000) * 100))
            else 0),
       period_start = ex_today, period_end = ex_today\<rparr>"
    unfolding e6 by (simp only: sum.inject)
  then have c6: "current_value p = 8000" by (simp only: Progress.select_convs)
  have b: "percentage p = 100" using p(2) c6 unfolding t6 by simp
  from progress_percentage [OF v, of ex_db "ex_goal 1 1 0 DAILY"] obtain q where
    q: "get_progress ex_today ex_db (ex_goal 1 1 0 DAILY) = Inr q" "percentage q = 0"
    using t0 by auto
  have z: "(0::rat) < 10000" "(0::rat) \<le> 8000" by simp_all
  from p(1) b have P: "\<exists>p. get_progress ex_today ex_db (ex_goal 1 1 6000 DAILY) = Inr p \<and>
      percentage p = 100" by blast
  from q have Q: "\<exists>p. get_progress ex_today ex_db (ex_goal 1 1 0 DAILY) = Inr p \<and>
      percentage p = 0" by blast
  show ?thesis by (intro conjI v a z n f P Q)
qed

text \<open>
  C1, as the claim words it, fails at a tie. With 15 steps recorded against a daily target
  of 10000 the quotient times 100 is exactly 0.15; rounded to one decimal place, half to
  even or half up, that is 0.2, while the code returns the float 0.1 (the float nearest to
  0.15 lies below it). With 5 steps the exact value 0.05 rounds to 0.0, half to even or
  half down, and the code returns the float 0.1.
\<close>

theorem progress_percentage_counterexample:
  "map_sum id percentage (get_progress ex_today (ex_db_tie 15) (ex_goal 1 1 10000 DAILY)) =
     Inr (float64 (1 / 10)) \<and>
   spec_percentage round1 15 10000 = 2 / 10 \<and>
   spec_percentage round1_half_up 15 10000 = 2 / 10 \<and>
   float64 (1 / 10) \<noteq> float64 (2 / 10) \<and> float64 (1 / 10) < 15 / 100 \<and>
   map_sum id percentage (get_progress ex_today (ex_db_tie 5) (ex_goal 1 1 10000 DAILY)) =
     Inr (float64 (1 / 10)) \<and>
   spec_percentage round1 5 10000 = 0 \<and>
   spec_percentage round1_half_down 5 10000 = 0 \<and>
   float64 (1 / 10) \<noteq> float64 0 \<and> 5 / 100 < float64 (1 / 10)"
proof -
  have w: "date_range ex_today (goal_type (ex_goal 1 1 10000 DAILY)) = Inr (ex_today, ex_today)"
    by code_simp
  have t: "target_value (ex_goal 1 1 10000 DAILY) = 10000"
    by code_simp
  have s15: "or_0 ((if goal_type (ex_goal 1 1 10000 DAILY) = DAILY then aggregate_Sum
               else aggregate_Avg)
          (metrics_in_range (ex_db_tie 15) (ex_goal 1 1 10000 DAILY) ex_today ex_today)) = 15"
    by code_simp
  have p15: "float_round1 (if (10000::rat) > 0
          then min 100 (float64 (float64 (float64 15 / float64 10000) * 100))
          else 0) = float64 (1 / 10)"
    by code_simp
  have s5: "or_0 ((if goal_type (ex_goal 1 1 10000 DAILY) = DAILY then aggregate_Sum
               else aggregate_Avg)
          (metrics_in_range (ex_db_tie 5) (ex_goal 1 1 10000 DAILY) ex_today ex_today)) = 5"
    by code_simp
  have p5: "float_round1 (if (10000::rat) > 0
          then min 100 (float64 (float64 (float64 5 / float64 10000) * 100))
          else 0) = float64 (1 / 10)"
    by code_simp
  have a: "map_sum id percentage
      (get_progress ex_today (ex_db_tie 15) (ex_goal 1 1 10000 DAILY)) = Inr (float64 (1 / 10))"
    unfolding get_progress_eval [OF w s15 t p15]
    by (simp only: map_sum.simps Progress.select_convs)
  have b: "spec_percentage round1 15 10000 = 2 / 10" by code_simp
  have c: "spec_percentage round1_half_up 15 10000 = 2 / 10" by code_simp
  have d: "float64 (1 / 10) \<noteq> float64 (2 / 10)" by code_simp
  have d': "float64 (1 / 10) < 15 / 100" by code_simp
  have e: "map_sum id percentage
      (get_progress ex_today (ex_db_tie 5) (ex_goal 1 1 10000 DAILY)) = Inr (float64 (1 / 10))"
    unfolding get_progress_eval [OF w s5 t p5]
    by (simp only: map_sum.simps Progress.select_convs)
  have f: "spec_percentage round1 5 10000 = 0" by code_simp
  have f': "spec_percentage round1_half_down 5 10000 = 0" by code_simp
  have h: "float64 (1 / 10) \<noteq> float64 0" by code_simp
  have h': "5 / 100 < float64 (1 / 10)" by code_simp
  show ?thesis by (intro conjI a b c d d' e f f' h h')
qed

text \<open>
  C6. Two goals that differ only in their direction have the same progress snapshot,
  for the same history and date: the direction is never consulted.
\<close>

theorem progress_ignores_direction:
  "get_progress today db (g\<lparr>direction := d\<rparr>) = get_progress today db g"
  by (simp add: get_progress_def metrics_in_range_def Let_def split: sum.split cong: if_cong)

section \<open>Goal progress: window and aggregation\<close>

lemma or_0_Sum: "or_0 (aggregate_Sum ms) = sum_list (map hm_value ms)"
  by (simp add: or_0_def aggregate_Sum_def truthy_def)

lemma or_0_Avg:
  "or_0 (aggregate_Avg ms) =
     (if ms = [] then 0 else sum_list (map hm_value ms) / of_nat (length ms))"
  by (simp add: or_0_def aggregate_Avg_def truthy_def)

text \<open>
  C2. The evaluation window ends today. For a DAILY goal it starts today; for a WEEKLY
  goal it starts on the Monday of today's week: a valid date whose weekday is 0, not after
  today, and exactly \<open>weekday today\<close> (at most 6) days before today; for a MONTHLY goal
  it starts on day 1 of today's month and year.
\<close>

theorem evaluation_window:
  assumes "valid_date today"
  shows "\<exists>p. get_progress today db g = Inr p \<and> period_end p = today \<and>
           (goal_type g = DAILY \<longrightarrow> period_start p = today) \<and>
           (goal_type g = WEEKLY \<longrightarrow>
              valid_date (period_start p) \<and> weekday (period_start p) = 0 \<and>
              date_le (period_start p) today \<and>
              toordinal today - toordinal (period_start p) = weekday today \<and>
              0 \<le> weekday today \<and> weekday today \<le> 6) \<and>
           (goal_type g = MONTHLY \<longrightarrow>
              period_start p = \<lparr>year = year today, month = month today, day = 1\<rparr>)"
proof -
  from get_progress_Inr [OF assms, of g db] obtain s cv where
    r: "date_range today (goal_type g) = Inr (s, today)"
    and p: "get_progress today db g =
          Inr \<lparr>current_value = cv, p_target_value = target_value g,
               percentage = float_round1 (if target_value g > 0
                   then min 100 (float64 (float64 (float64 cv / float64 (target_value g)) * 100))
                   else 0),
               period_start = s, period_end = today\<rparr>"
    by blast
  have d: "s = today" if "goal_type g = DAILY"
    using r that by (simp add: date_range_def)
  have m: "s = \<lparr>year = year today, month = month today, day = 1\<rparr>" if "goal_type g = MONTHLY"
    using r that by (cases today) (auto simp: date_range_def replace_day1_def)
  have w: "valid_date s \<and> weekday s = 0 \<and> date_le s today \<and>
           toordinal today - toordinal s = weekday today \<and>
           0 \<le> weekday today \<and> weekday today \<le> 6" if "goal_type g = WEEKLY"
  proof -
    from weekly_start [OF assms] obtain s' where
      s': "sub_days today (nat (weekday today)) = Some s'" "valid_date s'" "weekday s' = 0"
        "toordinal s' = toordinal today - weekday today" "date_le s' today"
      by blast
    from r that s'(1) have "s = s'" by (simp add: date_range_def)
    with s' weekday_bounds [OF assms] show ?thesis by simp
  qed
  show ?thesis unfolding p using d m w by simp
qed

theorem evaluation_window_witness:
  "valid_date ex_today \<and>
   (\<exists>p. get_progress ex_today ex_db (ex_goal 2 2 8 WEEKLY) = Inr p \<and>
        period_start p = \<lparr>year = 2024, month = 5, day = 13\<rparr> \<and> period_end p = ex_today \<and>
        weekday (period_start p) = 0 \<and> weekday ex_today = 2)"
proof -
  have v: "valid_date ex_today" by code_simp
  have gt: "goal_type (ex_goal 2 2 8 WEEKLY) = WEEKLY" by (simp add: ex_goal_def)
  have wd: "weekday ex_today = 2" by code_simp
  note e = ex_progress_weekly
  from evaluation_window [OF v, of ex_db "ex_goal 2 2 8 WEEKLY"] obtain p where
    p: "get_progress ex_today ex_db (ex_goal 2 2 8 WEEKLY) = Inr p" "period_end p = ex_today"
       "weekday (period_start p) = 0"
    unfolding gt by blast
  from p(1) have "period_start p = \<lparr>year = 2024, month = 5, day = 13\<rparr>"
    unfolding e by auto
  with v p wd show ?thesis by blast
qed

section \<open>Goal progress: aggregation\<close>

text \<open>
  C3. The current value is the sum of the values of the user's observations of the
  goal's metric type inside the window for a DAILY goal, and their arithmetic mean for a
  WEEKLY or MONTHLY goal; it is 0 when the window holds no observation. With the values
  3 and 5 in the window a DAILY goal has current value 8, the other goals 4.
\<close>

theorem current_value_aggregation:
  assumes "valid_date today"
  shows "\<exists>p vals. get_progress today db g = Inr p \<and>
           vals = map hm_value
             (filter (\<lambda>m. hm_user m = goal_user g \<and> hm_metric_type m = goal_metric_type g \<and>
                          date_le (period_start p) (recorded_date m) \<and>
                          date_le (recorded_date m) (period_end p)) db) \<and>
           current_value p =
             (if goal_type g = DAILY then sum_list vals
              else if vals = [] then 0 else sum_list vals / of_nat (length vals)) \<and>
           (vals = [] \<longrightarrow> current_value p = 0) \<and>
           (vals = [3, 5] \<longrightarrow> current_value p = (if goal_type g = DAILY then 8 else 4))"
proof -
  from get_progress_Inr [OF assms, of g db] obtain s cv where
    cv: "cv = (if goal_type g = DAILY then or_0 (aggregate_Sum (metrics_in_range db g s today))
               else or_0 (aggregate_Avg (metrics_in_range db g s today)))"
    and p: "get_progress today db g =
          Inr \<lparr>current_value = cv, p_target_value = target_value g,
               percentage = float_round1 (if target_value g > 0
                   then min 100 (float64 (float64 (float64 cv / float64 (target_value g)) * 100))
                   else 0),
               period_start = s, period_end = today\<rparr>"
    by blast
  define vals where "vals = map hm_value (metrics_in_range db g s today)"
  have e: "cv = (if goal_type g = DAILY then sum_list vals
                 else if vals = [] then 0 else sum_list vals / of_nat (length vals))"
    unfolding cv or_0_Sum or_0_Avg vals_def by simp
  have z: "cv = 0" if "vals = []" using e that by simp
  have x: "cv = (if goal_type g = DAILY then 8 else 4)" if "vals = [3, 5]"
    unfolding e that by simp
  show ?thesis
    unfolding p using e z x
    by (simp add: vals_def metrics_in_range_def)
qed

theorem current_value_aggregation_witness:
  "valid_date ex_today \<and>
   (\<exists>p. get_progress ex_today ex_db (ex_goal 2 2 8 WEEKLY) = Inr p \<and> current_value p = 4 \<and>
      map hm_value
        (filter (\<lambda>m. hm_user m = goal_user (ex_goal 2 2 8 WEEKLY) \<and>
                     hm_metric_type m = goal_metric_type (ex_goal 2 2 8 WEEKLY) \<and>
                     date_le (period_start p) (recorded_date m) \<and>
                     date_le (recorded_date m) (period_end p)) ex_db) = [3, 5])"
proof -
  have v: "valid_date ex_today" by code_simp
  have gt: "goal_type (ex_goal 2 2 8 WEEKLY) \<noteq> DAILY" by (simp add: ex_goal_def)
  note e = ex_progress_weekly
  have f: "map hm_value
        (filter (\<lambda>m. hm_user m = goal_user (ex_goal 2 2 8 WEEKLY) \<and>
                     hm_metric_type m = goal_metric_type (ex_goal 2 2 8 WEEKLY) \<and>
                     date_le \<lparr>year = 2024, month = 5, day = 13\<rparr> (recorded_date m) \<and>
                     date_le (recorded_date m) ex_today) ex_db) = [3, 5]"
    by code_simp
  from current_value_aggregation [OF v, of ex_db "ex_goal 2 2 8 WEEKLY"] obtain p where
    p: "get_progress ex_today ex_db (ex_goal 2 2 8 WEEKLY) = Inr p"
    by blast
  from p have q: "p = \<lparr>current_value = 4, p_target_value = 8, percentage = 50,
          period_start = \<lparr>year = 2024, month = 5, day = 13\<rparr>, period_end = ex_today\<rparr>"
    unfolding e by simp
  have "current_value p = 4" unfolding q by simp
  moreover have "period_start p = \<lparr>year = 2024, month = 5, day = 13\<rparr>" "period_end p = ex_today"
    unfolding q by simp_all
  ultimately show ?thesis using v p f by simp
qed

section \<open>Deactivating a goal\<close>

lemma get_object_Inr:
  assumes "get_object user pk goals = Inr goal"
  shows "goal \<in> set goals \<and> goal_user goal = user \<and> goal_id goal = pk"
proof -
  from assms obtain rest where
    "filter (\<lambda>g. goal_user g = user \<and> goal_id g = pk) goals = goal # rest"
    by (auto simp: get_object_def split: list.splits)
  then have "goal \<in> set (filter (\<lambda>g. goal_user g = user \<and> goal_id g = pk) goals)"
    by simp
  then show ?thesis by simp
qed

lemma get_object_found:
  assumes "g \<in> set goals" "goal_user g = user" "goal_id g = pk"
  shows "\<exists>goal. get_object user pk goals = Inr goal"
proof -
  from assms have "g \<in> set (filter (\<lambda>g. goal_user g = user \<and> goal_id g = pk) goals)"
    by simp
  then obtain x xs where "filter (\<lambda>g. goal_user g = user \<and> goal_id g = pk) goals = x # xs"
    by (cases "filter (\<lambda>g. goal_user g = user \<and> goal_id g = pk) goals") auto
  then show ?thesis by (simp add: get_object_def)
qed

lemma distinct_ids_eq:
  assumes "distinct (map goal_id goals)" "a \<in> set goals" "b \<in> set goals"
    "goal_id a = goal_id b"
  shows "a = b"
  using assms by (meson distinct_map inj_onD)

text \<open>
  C10. Deactivating a goal of the user succeeds, whether the goal was active or not. The
  table keeps all its rows, with their primary keys in place (nothing is deleted); the row
  of the goal has \<open>is_active\<close> false and its user, metric type, target value, goal type,
  direction, start date, end date and creation time unchanged; every other row is
  unchanged. Primary keys are distinct.
\<close>

theorem deactivate_frame:
  assumes "distinct (map goal_id goals)" "g \<in> set goals" "goal_user g = user" "goal_id g = pk"
  shows "\<exists>goals'. deactivate user pk now goals = Inr goals' \<and>
           length goals' = length goals \<and> map goal_id goals' = map goal_id goals \<and>
           (\<forall>i < length goals.
              if goal_id (goals ! i) = pk
              then goals' ! i = (goals ! i)\<lparr>is_active := False, goal_updated_at := now\<rparr> \<and>
                   \<not> is_active (goals' ! i) \<and>
                   goal_user (goals' ! i) = goal_user (goals ! i) \<and>
                   goal_metric_type (goals' ! i) = goal_metric_type (goals ! i) \<and>
                   target_value (goals' ! i) = target_value (goals ! i) \<and>
                   goal_type (goals' ! i) = goal_type (goals ! i) \<and>
                   direction (goals' ! i) = direction (goals ! i) \<and>
                   start_date (goals' ! i) = start_date (goals ! i) \<and>
                   end_date (goals' ! i) = end_date (goals ! i) \<and>
                   goal_created_at (goals' ! i) = goal_created_at (goals ! i)
              else goals' ! i = goals ! i)"
proof -
  from get_object_found [OF assms(2,3,4)] obtain goal where
    go: "get_object user pk goals = Inr goal" by blast
  from get_object_Inr [OF go] have "goal \<in> set goals" "goal_id goal = pk" by simp_all
  with assms have gg: "goal = g" by (intro distinct_ids_eq [of goals]) simp_all
  define goals' where "goals' = save now (g\<lparr>is_active := False\<rparr>) goals"
  have d: "deactivate user pk now goals = Inr goals'"
    by (simp add: deactivate_def go gg goals'_def)
  have l: "length goals' = length goals" by (simp add: goals'_def save_def)
  have ids: "map goal_id goals' = map goal_id goals"
    by (simp add: goals'_def save_def assms(4))
  have row: "goals' ! i = (if goal_id (goals ! i) = pk
                then (goals ! i)\<lparr>is_active := False, goal_updated_at := now\<rparr>
                else goals ! i)" if "i < length goals" for i
  proof (cases "goal_id (goals ! i) = pk")
    case True
    with that assms have "goals ! i = g" by (intro distinct_ids_eq [of goals]) simp_all
    with that True show ?thesis by (simp add: goals'_def save_def assms(4))
  next
    case False
    with that show ?thesis by (simp add: goals'_def save_def assms(4))
  qed
  show ?thesis using d l ids row by simp
qed

theorem deactivate_frame_witness:
  "distinct (map goal_id ex_goals) \<and>
   (\<exists>goals'. deactivate 1 1 99 ex_goals = Inr goals' \<and> length goals' = 6 \<and>
      goals' ! 0 = (ex_goal 1 1 10000 DAILY)\<lparr>is_active := False, goal_updated_at := 99\<rparr> \<and>
      goals' ! 1 = ex_goal 2 2 8 WEEKLY) \<and>
   (\<exists>goals'. deactivate 1 3 99 ex_goals = Inr goals' \<and>
      goals' ! 2 = (ex_goal 3 2 7 MONTHLY)\<lparr>is_active := False, goal_updated_at := 99\<rparr>)"
proof -
  have d: "distinct (map goal_id ex_goals)" by code_simp
  have len: "length ex_goals = 6" by (simp add: ex_goals_def)
  have n0: "ex_goals ! 0 = ex_goal 1 1 10000 DAILY" "ex_goals ! 1 = ex_goal 2 2 8 WEEKLY"
    "ex_goals ! 2 = (ex_goal 3 2 7 MONTHLY)\<lparr>is_active := False\<rparr>"
    by (simp_all add: ex_goals_def)
  have m1: "ex_goal 1 1 10000 DAILY \<in> set ex_goals"
    and m3: "(ex_goal 3 2 7 MONTHLY)\<lparr>is_active := False\<rparr> \<in> set ex_goals"
    by (simp_all add: ex_goals_def)
  have f1: "goal_user (ex_goal 1 1 10000 DAILY) = 1" "goal_id (ex_goal 1 1 10000 DAILY) = 1"
    "goal_id (ex_goal 2 2 8 WEEKLY) \<noteq> 1"
    by (simp_all add: ex_goal_def)
  have f3: "goal_user ((ex_goal 3 2 7 MONTHLY)\<lparr>is_active := False\<rparr>) = 1"
    "goal_id ((ex_goal 3 2 7 MONTHLY)\<lparr>is_active := False\<rparr>) = 3"
    by (simp_all add: ex_goal_def)
  from deactivate_frame [OF d m1 f1(1,2), of 99] obtain a where
    a: "deactivate 1 1 99 ex_goals = Inr a" "length a = length ex_goals"
      "\<forall>i < length ex_goals.
              if goal_id (ex_goals ! i) = 1
              then a ! i = (ex_goals ! i)\<lparr>is_active := False, goal_updated_at := 99\<rparr> \<and>
                   \<not> is_active (a ! i) \<and>
                   goal_user (a ! i) = goal_user (ex_goals ! i) \<and>
                   goal_metric_type (a ! i) = goal_metric_type (ex_goals ! i) \<and>
                   target_value (a ! i) = target_value (ex_goals ! i) \<and>
                   goal_type (a ! i) = goal_type (ex_goals ! i) \<and>
                   direction (a ! i) = direction (ex_goals ! i) \<and>
                   start_date (a ! i) = start_date (ex_goals ! i) \<and>
                   end_date (a ! i) = end_date (ex_goals ! i) \<and>
                   goal_created_at (a ! i) = goal_created_at (ex_goals ! i)
              else a ! i = ex_goals ! i"
    by blast
  from a(3) [rule_format, of 0] have a0:
    "a ! 0 = (ex_goal 1 1 10000 DAILY)\<lparr>is_active := False, goal_updated_at := 99\<rparr>"
    unfolding len n0 using f1 by simp
  from a(3) [rule_format, of 1] have a1: "a ! 1 = ex_goal 2 2 8 WEEKLY"
    unfolding len n0 using f1 by simp
  from deactivate_frame [OF d m3 f3, of 99] obtain b where
    b: "deactivate 1 3 99 ex_goals = Inr b"
      "\<forall>i < length ex_goals.
              if goal_id (ex_goals ! i) = 3
              then b ! i = (ex_goals ! i)\<lparr>is_active := False, goal_updated_at := 99\<rparr> \<and>
                   \<not> is_active (b ! i) \<and>
                   goal_user (b ! i) = goal_user (ex_goals ! i) \<and>
                   goal_metric_type (b ! i) = goal_metric_type (ex_goals ! i) \<and>
                   target_value (b ! i) = target_value (ex_goals ! i) \<and>
                   goal_type (b ! i) = goal_type (ex_goals ! i) \<and>
                   direction (b ! i) = direction (ex_goals ! i) \<and>
                   start_date (b ! i) = start_date (ex_goals ! i) \<and>
                   end_date (b ! i) = end_date (ex_goals ! i) \<and>
                   goal_created_at (b ! i) = goal_created_at (ex_goals ! i)
              else b ! i = ex_goals ! i"
    by blast
  from b(2) [rule_format, of 2] have b2:
    "b ! 2 = (ex_goal 3 2 7 MONTHLY)\<lparr>is_active := False, goal_updated_at := 99\<rparr>"
    unfolding len n0 using f3 by simp
  from a(2) have la: "length a = 6" by (simp add: len)
  from d a(1) la a0 a1 b(1) b2 show ?thesis by blast
qed

section \<open>Creating a metric: duplicates and bounds\<close>








section \<open>The bounds check and a bound of zero\<close>

lemma check_bounds_iff:
  "check_bounds (Some mt) (Some v) \<noteq> None \<longleftrightarrow>
     (\<exists>lo. min_value mt = Some lo \<and> lo \<noteq> 0 \<and> v < lo) \<or>
     (\<exists>hi. max_value mt = Some hi \<and> hi \<noteq> 0 \<and> hi < v)"
  by (auto simp: check_bounds_def truthy_def split: option.splits)

lemma clean_iff:
  "clean (Some mt) v \<noteq> None \<longleftrightarrow>
     (\<exists>lo. min_value mt = Some lo \<and> lo \<noteq> 0 \<and> v < lo) \<or>
     (\<exists>hi. max_value mt = Some hi \<and> hi \<noteq> 0 \<and> hi < v)"
  by (auto simp: clean_def truthy_def split: option.splits)

text \<open>
  C8. The claim asks for a rejection whenever \<open>max_value\<close> is set and the value exceeds
  it. The checks test the bound for truth before comparing, and a bound of zero is false:
  with \<open>max_value = 0\<close> the value 5 passes \<^verbatim>\<open>validate\<close> and \<^verbatim>\<open>clean\<close>, and the row
  is created.
\<close>

theorem zero_max_value_not_enforced:
  "max_value ex_capped = Some 0 \<and> (0::rat) < 5 \<and>
   validate 1 ex_today None ex_db (ex_attrs ex_capped 5 16) = Inr (ex_attrs ex_capped 5 16) \<and>
   clean (Some ex_capped) 5 = None \<and>
   (\<exists>row. create_metric 1 ex_today 100 ex_db (ex_attrs ex_capped 5 16) = Inr (ex_db @ [row]) \<and>
      hm_value row = 5 \<and> hm_metric_type row = mt_id ex_capped)"
proof -
  have a: "max_value ex_capped = Some 0" by (simp add: ex_capped_def)
  have b: "validate 1 ex_today None ex_db (ex_attrs ex_capped 5 16) =
      Inr (ex_attrs ex_capped 5 16)"
    by code_simp
  have c: "clean (Some ex_capped) 5 = None" by code_simp
  have d: "create_metric 1 ex_today 100 ex_db (ex_attrs ex_capped 5 16) =
      Inr (ex_db @ [\<lparr>hm_id = 9, hm_user = 1, hm_metric_type = 1, hm_value = 5,
                     recorded_date = \<lparr>year = 2024, month = 5, day = 16\<rparr>, hm_notes = [],
                     hm_created_at = 100, hm_updated_at = 100\<rparr>])"
    by code_simp
  have e: "mt_id ex_capped = 1" by (simp add: ex_capped_def ex_steps_def)
  show ?thesis using a b c unfolding d e by simp
qed

section \<open>Ordering and the dashboard\<close>

lemma mset_insort_by: "mset (insort_by le x xs) = add_mset x (mset xs)"
  by (induction xs) simp_all

lemma mset_order_by: "mset (order_by le xs) = mset xs"
  unfolding order_by_def by (induction xs) (simp_all add: mset_insort_by)

lemma length_order_by: "length (order_by le xs) = length xs"
  using mset_order_by [of le xs] by (metis size_mset)

lemma length_filter_order_by:
  "length (filter P (order_by le xs)) = length (filter P xs)"
proof -
  have "mset (filter P (order_by le xs)) = mset (filter P xs)"
    by (simp only: mset_filter mset_order_by)
  then show ?thesis by (metis size_mset)
qed

lemma set_insort_by: "set (insort_by le x xs) = insert x (set xs)"
  by (induction xs) auto

lemma sorted_insort_by:
  assumes tot: "\<And>a b. le a b \<or> le b a" and tr: "\<And>a b c. le a b \<Longrightarrow> le b c \<Longrightarrow> le a c"
  shows "sorted_wrt le xs \<Longrightarrow> sorted_wrt le (insort_by le x xs)"
proof (induction xs)
  case Nil
  then show ?case by simp
next
  case (Cons y ys)
  show ?case
  proof (cases "le x y")
    case True
    with Cons.prems show ?thesis by (auto intro: tr)
  next
    case False
    with tot have "le y x" by blast
    with Cons False show ?thesis by (auto simp: set_insort_by)
  qed
qed

lemma sorted_order_by:
  assumes tot: "\<And>a b. le a b \<or> le b a" and tr: "\<And>a b c. le a b \<Longrightarrow> le b c \<Longrightarrow> le a c"
  shows "sorted_wrt le (order_by le xs)"
  unfolding order_by_def
  by (induction xs) (simp_all add: sorted_insort_by [OF tot tr])

lemma metric_order_total: "metric_order a b \<or> metric_order b a"
  unfolding metric_order_def date_lt_def date_eq_def by linarith

lemma metric_order_trans:
  assumes "metric_order a b" "metric_order b c"
  shows "metric_order a c"
proof -
  define da where "da = recorded_date a"
  define db where "db = recorded_date b"
  define dc where "dc = recorded_date c"
  from assms have
    ab: "date_lt db da \<or> (date_eq da db \<and> hm_created_at b \<le> hm_created_at a)" and
    bc: "date_lt dc db \<or> (date_eq db dc \<and> hm_created_at c \<le> hm_created_at b)"
    by (simp_all add: metric_order_def da_def db_def dc_def)
  have 1: "date_lt dc da" if "date_lt db da" "date_lt dc db"
    using that by (rule date_lt_trans [rotated])
  have 2: "date_lt dc da" if "date_lt db da" "date_eq db dc"
    using that by (auto simp: date_lt_def date_eq_def)
  have 3: "date_lt dc da" if "date_eq da db" "date_lt dc db"
    using that by (auto simp: date_lt_def date_eq_def)
  have 4: "date_eq da dc" if "date_eq da db" "date_eq db dc"
    using that by (auto simp: date_eq_def)
  from ab bc 1 2 3 4 show ?thesis
    unfolding metric_order_def da_def [symmetric] dc_def [symmetric] by fastforce
qed

lemma serializer_data_Inr:
  assumes "valid_date today"
  shows "\<exists>ps. serializer_data today db gs = Inr ps \<and> map fst ps = gs \<and>
           (\<forall>gp \<in> set ps. get_progress today db (fst gp) = Inr (snd gp))"
proof (induction gs)
  case Nil
  then show ?case by simp
next
  case (Cons g gs)
  from get_progress_Inr [OF assms, of g db] obtain p where
    p: "get_progress today db g = Inr p" by blast
  from Cons obtain ps where
    ps: "serializer_data today db gs = Inr ps" "map fst ps = gs"
      "\<forall>gp \<in> set ps. get_progress today db (fst gp) = Inr (snd gp)"
    by blast
  from p ps show ?case by simp
qed

lemma not_date_lt: "\<not> date_lt e today \<longleftrightarrow> date_le today e"
  unfolding date_lt_def date_le_def date_eq_def by linarith

lemma on_track_count:
  assumes "map fst ps = gs" "\<forall>gp \<in> set ps. get_progress today db (fst gp) = Inr (snd gp)"
  shows "length (filter (\<lambda>gd. percentage (snd gd) \<ge> 50) ps) =
         length (filter (\<lambda>g. case get_progress today db g of
                              Inl e \<Rightarrow> False | Inr p \<Rightarrow> 50 \<le> percentage p) gs)"
  using assms
proof (induction ps arbitrary: gs)
  case Nil
  then show ?case by simp
next
  case (Cons a ps)
  then obtain gs' where gs: "gs = fst a # gs'" "map fst ps = gs'" by auto
  from Cons.prems(2) have a: "get_progress today db (fst a) = Inr (snd a)" by simp
  from Cons.IH [OF gs(2)] Cons.prems(2)
  have "length (filter (\<lambda>gd. percentage (snd gd) \<ge> 50) ps) =
         length (filter (\<lambda>g. case get_progress today db g of
                              Inl e \<Rightarrow> False | Inr p \<Rightarrow> 50 \<le> percentage p) gs')"
    by simp
  then show ?case by (simp add: gs(1) a)
qed

lemma dashboard_list_Inr:
  assumes "valid_date today" "7 < toordinal today"
  shows "\<exists>week_ago ps.
           sub_days today 7 = Some week_ago \<and> valid_date week_ago \<and>
           toordinal week_ago = toordinal today - 7 \<and>
           serializer_data today db (active_goals_queryset user today goals) = Inr ps \<and>
           map fst ps = active_goals_queryset user today goals \<and>
           (\<forall>gp \<in> set ps. get_progress today db (fst gp) = Inr (snd gp)) \<and>
           dashboard_list user today db goals =
             Inr \<lparr>total_metrics_logged = length (filter (\<lambda>m. hm_user m = user) db),
                  active_goals = length (active_goals_queryset user today goals),
                  metrics_this_week =
                    length (filter (\<lambda>m. hm_user m = user \<and>
                                        date_le week_ago (recorded_date m)) db),
                  goals_on_track = length (filter (\<lambda>gd. percentage (snd gd) \<ge> 50) ps),
                  recent_metrics =
                    take 5 (order_by metric_order (filter (\<lambda>m. hm_user m = user) db)),
                  goal_progress = ps\<rparr>"
proof -
  from assms(2) have "int 7 < toordinal today" by simp
  from sub_days_Some [OF assms(1) this] obtain w where
    w: "sub_days today 7 = Some w" "valid_date w" "toordinal w = toordinal today - 7"
    by auto
  from serializer_data_Inr [OF assms(1), of db "active_goals_queryset user today goals"]
  obtain ps where
    ps: "serializer_data today db (active_goals_queryset user today goals) = Inr ps"
      "map fst ps = active_goals_queryset user today goals"
      "\<forall>gp \<in> set ps. get_progress today db (fst gp) = Inr (snd gp)"
    by blast
  have "dashboard_list user today db goals =
             Inr \<lparr>total_metrics_logged = length (filter (\<lambda>m. hm_user m = user) db),
                  active_goals = length (active_goals_queryset user today goals),
                  metrics_this_week =
                    length (filter (\<lambda>m. hm_user m = user \<and>
                                        date_le w (recorded_date m)) db),
                  goals_on_track = length (filter (\<lambda>gd. percentage (snd gd) \<ge> 50) ps),
                  recent_metrics =
                    take 5 (order_by metric_order (filter (\<lambda>m. hm_user m = user) db)),
                  goal_progress = ps\<rparr>"
    by (simp add: dashboard_list_def w(1) ps(1) Let_def)
  with w ps show ?thesis by blast
qed

text \<open>
  C4. On a date from 0001-01-08 on, the dashboard is computed, its \<open>active_goals\<close> is the
  number of the user's goals that are active and not expired (no end date, or an end date
  not before today), and its \<open>goals_on_track\<close> is the number of those goals whose
  computed progress percentage is at least 50.
\<close>

theorem dashboard_goal_counts:
  assumes "valid_date today" "7 < toordinal today"
  shows "\<exists>r. dashboard_list user today db goals = Inr r \<and>
           active_goals r =
             length (filter (\<lambda>g. goal_user g = user \<and> is_active g \<and>
                                 \<not> is_expired today g) goals) \<and>
           active_goals r =
             length (filter (\<lambda>g. goal_user g = user \<and> is_active g \<and>
                                 (case end_date g of None \<Rightarrow> True
                                  | Some e \<Rightarrow> date_le today e)) goals) \<and>
           goals_on_track r =
             length (filter (\<lambda>g. goal_user g = user \<and> is_active g \<and>
                                 \<not> is_expired today g \<and>
                                 (case get_progress today db g of
                                    Inl e \<Rightarrow> False | Inr p \<Rightarrow> 50 \<le> percentage p)) goals)"
proof -
  define A where "A = (\<lambda>g. goal_user g = user \<and> is_active g \<and> \<not> is_expired today g)"
  define Q where "Q = (\<lambda>g. case get_progress today db g of
                              Inl e \<Rightarrow> False | Inr p \<Rightarrow> 50 \<le> percentage p)"
  have q: "active_goals_queryset user today goals = order_by goal_order (filter A goals)"
  proof -
    have "filter (\<lambda>g. \<not> (case end_date g of Some e \<Rightarrow> date_lt e today | None \<Rightarrow> False))
            (filter (\<lambda>g. goal_user g = user \<and> is_active g) goals) = filter A goals"
      unfolding filter_filter by (rule filter_cong) (auto simp: A_def is_expired_def)
    then show ?thesis by (simp only: active_goals_queryset_def)
  qed
  have A': "A = (\<lambda>g. goal_user g = user \<and> is_active g \<and>
                     (case end_date g of None \<Rightarrow> True | Some e \<Rightarrow> date_le today e))"
    by (auto simp: A_def is_expired_def not_date_lt split: option.splits)
  from dashboard_list_Inr [OF assms, of db user goals] obtain ps where
    ps: "map fst ps = active_goals_queryset user today goals"
      "\<forall>gp \<in> set ps. get_progress today db (fst gp) = Inr (snd gp)"
    and d: "\<exists>r. dashboard_list user today db goals = Inr r \<and>
              active_goals r = length (active_goals_queryset user today goals) \<and>
              goals_on_track r = length (filter (\<lambda>gd. percentage (snd gd) \<ge> 50) ps)"
    by fastforce
  have 1: "length (active_goals_queryset user today goals) = length (filter A goals)"
    by (simp add: q length_order_by)
  have "length (filter (\<lambda>gd. percentage (snd gd) \<ge> 50) ps) =
        length (filter Q (active_goals_queryset user today goals))"
    unfolding Q_def by (rule on_track_count [OF ps])
  also have "\<dots> = length (filter Q (filter A goals))"
    by (simp add: q length_filter_order_by)
  also have "\<dots> = length (filter (\<lambda>g. A g \<and> Q g) goals)"
    by simp
  finally have 2: "length (filter (\<lambda>gd. percentage (snd gd) \<ge> 50) ps) =
        length (filter (\<lambda>g. A g \<and> Q g) goals)" .
  have 3: "length (filter A goals) =
     length (filter (\<lambda>g. goal_user g = user \<and> is_active g \<and>
                         (case end_date g of None \<Rightarrow> True | Some e \<Rightarrow> date_le today e)) goals)"
    by (subst A') simp
  from d obtain r where
    r: "dashboard_list user today db goals = Inr r"
      "active_goals r = length (filter A goals)"
      "goals_on_track r = length (filter (\<lambda>g. A g \<and> Q g) goals)"
    unfolding 1 2 by blast
  from r(2) 3 have r3: "active_goals r =
     length (filter (\<lambda>g. goal_user g = user \<and> is_active g \<and>
                         (case end_date g of None \<Rightarrow> True | Some e \<Rightarrow> date_le today e)) goals)"
    by simp
  from r(1) r(2) r3 r(3) show ?thesis
    unfolding A_def Q_def by (simp add: conj_assoc)
qed

theorem dashboard_goal_counts_witness:
  "valid_date ex_today \<and> 7 < toordinal ex_today \<and>
   (\<exists>r. dashboard_list 1 ex_today ex_db ex_goals = Inr r \<and>
        active_goals r = 3 \<and> goals_on_track r = 2)"
proof -
  have v: "valid_date ex_today" by code_simp
  have t: "7 < toordinal ex_today" by code_simp
  have a: "length (filter (\<lambda>g. goal_user g = 1 \<and> is_active g \<and>
                                 \<not> is_expired ex_today g) ex_goals) = 3"
    by code_simp
  define P where "P = (\<lambda>g. goal_user g = 1 \<and> is_active g \<and>
                                 \<not> is_expired ex_today g \<and>
                                 (case get_progress ex_today ex_db g of
                                    Inl e \<Rightarrow> False | Inr p \<Rightarrow> 50 \<le> percentage p))"
  have p1: "P (ex_goal 1 1 10000 DAILY)"
    unfolding P_def ex_progress_daily by (simp add: ex_goal_def is_expired_def)
  have p2: "P (ex_goal 2 2 8 WEEKLY)"
    unfolding P_def ex_progress_weekly by (simp add: ex_goal_def is_expired_def)
  have p3: "\<not> P ((ex_goal 3 2 7 MONTHLY)\<lparr>is_active := False\<rparr>)"
    unfolding P_def by simp
  have p4: "\<not> P ((ex_goal 4 1 20000 WEEKLY)
                  \<lparr>end_date := Some \<lparr>year = 2024, month = 5, day = 14\<rparr>\<rparr>)"
    unfolding P_def by (simp add: is_expired_def ex_today_def date_lt_def)
  have p5: "\<not> P ((ex_goal 5 1 100 MONTHLY)\<lparr>goal_user := 2\<rparr>)"
    unfolding P_def by simp
  have p6: "\<not> P ((ex_goal 6 1 100000 MONTHLY)
                  \<lparr>end_date := Some \<lparr>year = 2024, month = 5, day = 15\<rparr>\<rparr>)"
    unfolding P_def ex_progress_monthly by simp
  have "length (filter P ex_goals) = 2"
    unfolding ex_goals_def
    by (simp only: filter.simps p1 p2 p3 p4 p5 p6 if_True if_False) simp
  then have b: "length (filter (\<lambda>g. goal_user g = 1 \<and> is_active g \<and>
                                 \<not> is_expired ex_today g \<and>
                                 (case get_progress ex_today ex_db g of
                                    Inl e \<Rightarrow> False | Inr p \<Rightarrow> 50 \<le> percentage p))
                     ex_goals) = 2"
    unfolding P_def .
  from dashboard_goal_counts [OF v t, of 1 ex_db ex_goals] v t show ?thesis
    unfolding a b by blast
qed

text \<open>
  C5, as the code has it. On a date from 0001-01-08 on, \<open>metrics_this_week\<close> is the
  number of the user's observations recorded on or after the day seven days before today;
  there is no upper end, observations dated after today count too.
  \<open>total_metrics_logged\<close> is the number of all observations of the user.
\<close>

theorem dashboard_observation_counts:
  assumes "valid_date today" "7 < toordinal today"
  shows "\<exists>r week_ago. dashboard_list user today db goals = Inr r \<and>
           sub_days today 7 = Some week_ago \<and> valid_date week_ago \<and>
           toordinal week_ago = toordinal today - 7 \<and>
           metrics_this_week r =
             length (filter (\<lambda>m. hm_user m = user \<and> date_le week_ago (recorded_date m)) db) \<and>
           total_metrics_logged r = length (filter (\<lambda>m. hm_user m = user) db)"
  using dashboard_list_Inr [OF assms, of db user goals] by fastforce

theorem dashboard_observation_counts_witness:
  "valid_date ex_today \<and> 7 < toordinal ex_today \<and>
   (\<exists>r. dashboard_list 1 ex_today ex_db ex_goals = Inr r \<and>
        metrics_this_week r = 5 \<and> total_metrics_logged r = 7)"
proof -
  have v: "valid_date ex_today" by code_simp
  have t: "7 < toordinal ex_today" by code_simp
  have w: "sub_days ex_today 7 = Some \<lparr>year = 2024, month = 5, day = 8\<rparr>" by code_simp
  have a: "length (filter (\<lambda>m. hm_user m = 1 \<and>
              date_le \<lparr>year = 2024, month = 5, day = 8\<rparr> (recorded_date m)) ex_db) = 5"
    by code_simp
  have b: "length (filter (\<lambda>m. hm_user m = 1) ex_db) = 7" by code_simp
  from dashboard_observation_counts [OF v t, of 1 ex_db ex_goals] v t show ?thesis
    unfolding w b using a by auto
qed

text \<open>
  C5, as the claim words it, fails: for user 1 on 15 May 2024 the dashboard counts 5
  observations, among them one dated 20 May, while 4 of the user's observations are dated
  from 8 May to 15 May and 3 from 9 May to 15 May.
\<close>

theorem observations_this_week_counterexample:
  "valid_date ex_today \<and>
   map_sum id metrics_this_week (dashboard_list 1 ex_today ex_db ex_goals) = Inr 5 \<and>
   spec_observations_within 7 1 ex_today ex_db = 4 \<and>
   spec_observations_within 6 1 ex_today ex_db = 3"
proof -
  have v: "valid_date ex_today" by code_simp
  have t: "7 < toordinal ex_today" by code_simp
  have w: "sub_days ex_today 7 = Some \<lparr>year = 2024, month = 5, day = 8\<rparr>" by code_simp
  have n: "length (filter (\<lambda>m. hm_user m = 1 \<and>
              date_le \<lparr>year = 2024, month = 5, day = 8\<rparr> (recorded_date m)) ex_db) = 5"
    by code_simp
  from dashboard_list_Inr [OF v t, of ex_db 1 ex_goals] obtain r where
    r: "dashboard_list 1 ex_today ex_db ex_goals = Inr r" "metrics_this_week r = 5"
    unfolding w using n by auto
  have a: "map_sum id metrics_this_week (dashboard_list 1 ex_today ex_db ex_goals) = Inr 5"
    unfolding r(1) by (simp add: r(2))
  have b: "spec_observations_within 7 1 ex_today ex_db = 4" by code_simp
  have c: "spec_observations_within 6 1 ex_today ex_db = 3" by code_simp
  from v a b c show ?thesis by simp
qed

lemma recent_metrics_eq:
  assumes "dashboard_list user today db goals = Inr r"
  shows "recent_metrics r = take 5 (order_by metric_order (filter (\<lambda>m. hm_user m = user) db))"
  using assms
  by (auto simp add: dashboard_list_def Let_def split: option.splits sum.splits)

lemma recent_of_sorted:
  assumes "sorted_wrt le s" "mset s = mset us"
  shows "length (take n s) = min n (length us) \<and> sorted_wrt le (take n s) \<and>
         mset (take n s) \<subseteq># mset us \<and>
         (\<forall>x \<in> set (take n s). \<forall>y \<in># mset us - mset (take n s). le x y)"
proof -
  have "size (mset s) = size (mset us)" by (simp only: assms(2))
  then have len: "length s = length us" by (simp only: size_mset)
  have "mset (take n s @ drop n s) = mset us" by (simp only: append_take_drop_id assms(2))
  then have split: "mset us = mset (take n s) + mset (drop n s)" by (simp only: mset_append)
  have rest: "mset us - mset (take n s) = mset (drop n s)"
    unfolding split by simp
  from assms(1) have "sorted_wrt le (take n s @ drop n s)" by (simp only: append_take_drop_id)
  then have s: "sorted_wrt le (take n s)"
    and o: "\<forall>x \<in> set (take n s). \<forall>y \<in> set (drop n s). le x y"
    unfolding sorted_wrt_append by simp_all
  have sub: "mset (take n s) \<subseteq># mset us" unfolding split by simp
  have l: "length (take n s) = min n (length us)" by (simp add: len min.commute)
  from o have o': "\<forall>x \<in> set (take n s). \<forall>y \<in># mset us - mset (take n s). le x y"
    unfolding rest by simp
  from l s sub o' show ?thesis by blast
qed

text \<open>
  C9. On a date from 0001-01-08 on, the dashboard's \<open>recent_metrics\<close> are observations
  of the user (each taken at most as often as it is stored), 5 of them or all when the
  user has fewer; they are in the order \<open>recorded_date\<close> descending, then creation time
  descending; and each of them comes, in that order, before or level with every
  observation of the user that is left out.
\<close>

theorem dashboard_recent_metrics:
  assumes "valid_date today" "7 < toordinal today"
  shows "\<exists>r. dashboard_list user today db goals = Inr r \<and>
           length (recent_metrics r) = min 5 (length (filter (\<lambda>m. hm_user m = user) db)) \<and>
           sorted_wrt metric_order (recent_metrics r) \<and>
           mset (recent_metrics r) \<subseteq># mset (filter (\<lambda>m. hm_user m = user) db) \<and>
           (\<forall>x \<in> set (recent_metrics r).
              \<forall>y \<in># mset (filter (\<lambda>m. hm_user m = user) db) - mset (recent_metrics r).
                date_lt (recorded_date y) (recorded_date x) \<or>
                (date_eq (recorded_date x) (recorded_date y) \<and>
                 hm_created_at y \<le> hm_created_at x))"
proof -
  define us where "us = filter (\<lambda>m. hm_user m = user) db"
  define s where "s = order_by metric_order us"
  have srt: "sorted_wrt metric_order s"
    unfolding s_def by (rule sorted_order_by [OF metric_order_total metric_order_trans])
  have ms: "mset s = mset us" unfolding s_def by (rule mset_order_by)
  from dashboard_list_Inr [OF assms, of db user goals] obtain r where
    r: "dashboard_list user today db goals = Inr r" "recent_metrics r = take 5 s"
    unfolding s_def us_def by fastforce
  from recent_of_sorted [OF srt ms, of 5] have
    f1: "length (take 5 s) = min 5 (length us)" and
    f2: "sorted_wrt metric_order (take 5 s)" and
    f3: "mset (take 5 s) \<subseteq># mset us" and
    f4: "\<forall>x \<in> set (take 5 s). \<forall>y \<in># mset us - mset (take 5 s). metric_order x y"
    by blast+
  from f4 have f5: "\<forall>x \<in> set (take 5 s). \<forall>y \<in># mset us - mset (take 5 s).
      date_lt (recorded_date y) (recorded_date x) \<or>
      (date_eq (recorded_date x) (recorded_date y) \<and> hm_created_at y \<le> hm_created_at x)"
    by (simp only: metric_order_def)
  show ?thesis
    using r(1) f1 f2 f3 f5 unfolding r(2) [symmetric] us_def by blast
qed

theorem dashboard_recent_metrics_witness:
  "valid_date ex_today \<and> 7 < toordinal ex_today \<and>
   (\<exists>r. dashboard_list 1 ex_today ex_db ex_goals = Inr r \<and>
        length (recent_metrics r) = 5 \<and> sorted_wrt metric_order (recent_metrics r) \<and>
        map hm_id (recent_metrics r) = [7, 1, 3, 2, 5])"
proof -
  have v: "valid_date ex_today" by code_simp
  have t: "7 < toordinal ex_today" by code_simp
  have n: "min 5 (length (filter (\<lambda>m. hm_user m = 1) ex_db)) = 5" by code_simp
  have e: "map hm_id (take 5 (order_by metric_order (filter (\<lambda>m. hm_user m = 1) ex_db))) =
             [7, 1, 3, 2, 5]"
    by code_simp
  from dashboard_recent_metrics [OF v t, of 1 ex_db ex_goals] obtain r where
    r: "dashboard_list 1 ex_today ex_db ex_goals = Inr r"
      "length (recent_metrics r) = 5" "sorted_wrt metric_order (recent_metrics r)"
    unfolding n by blast
  have "recent_metrics r = take 5 (order_by metric_order (filter (\<lambda>m. hm_user m = 1) ex_db))"
    by (rule recent_metrics_eq [OF r(1)])
  then have m: "map hm_id (recent_metrics r) = [7, 1, 3, 2, 5]"
    by (simp only: e)
  show ?thesis by (intro conjI exI [of _ r] v t r m)
qed

end
